theory Spec2Isabelle
  imports Main "HOL-Library.Sublist"
begin

section \<open>Text and the tables of the string library\<close>

text \<open>
  The analyzer works on Python \<^verbatim>\<open>str\<close> values, which are sequences of Unicode code
  points.  A code point is a natural number and a text is a list of them; the vocabulary
  below contains CJK ideographs, written by their code points.
\<close>

type_synonym codepoint = nat
type_synonym ustr = "codepoint list"

definition ascii :: "string \<Rightarrow> ustr" where
  "ascii s = map of_char s"

text \<open>
  Three library operations used by the analyzer are driven by the Unicode character
  database, which is not part of the repository: \<^verbatim>\<open>str.lower()\<close>, the class
  \<^verbatim>\<open>\d\<close> of module \<^verbatim>\<open>re\<close> (together with the digit values read by
  \<^verbatim>\<open>int()\<close>) and the class \<^verbatim>\<open>\s\<close>.  They are a parameter of every operation:
  \<open>to_lower\<close> is the whole of \<^verbatim>\<open>str.lower\<close> (it is not a map over characters in
  Python: one code point may become two, and capital sigma depends on its context),
  \<open>decimal c\<close> is the value of \<open>c\<close> when \<open>c\<close> is a decimal digit, and
  \<open>whitespace\<close> is the class \<^verbatim>\<open>\s\<close>.
\<close>

record ucd =
  to_lower :: "ustr \<Rightarrow> ustr"
  decimal :: "codepoint \<Rightarrow> nat option"
  whitespace :: "codepoint \<Rightarrow> bool"

text \<open>
  \<open>basic_latin\<close> is the database cut down to the Basic Latin block: \<^verbatim>\<open>A\<close>-\<^verbatim>\<open>Z\<close> are
  lowered, \<^verbatim>\<open>0\<close>-\<^verbatim>\<open>9\<close> are the digits, and the white space is U+0009-U+000D,
  U+001C-U+001F and U+0020.  Every other code point is caseless, no digit and no space,
  which is what Python answers for the CJK ideographs of the vocabulary.  It is used to
  run the model on texts made of Basic Latin and CJK ideographs only.
\<close>

definition basic_latin :: ucd where
  "basic_latin =
     \<lparr> to_lower = map (\<lambda>c. if 65 \<le> c \<and> c \<le> 90 then c + 32 else c),
       decimal = (\<lambda>c. if 48 \<le> c \<and> c \<le> 57 then Some (c - 48) else None),
       whitespace = (\<lambda>c. (9 \<le> c \<and> c \<le> 13) \<or> (28 \<le> c \<and> c \<le> 32)) \<rparr>"

section \<open>The vocabulary of \<^verbatim>\<open>ESGPanelAnalyzer.__init__\<close>\<close>

text \<open>
  The four lists are fixed when the analyzer is built and never assigned again, so they
  are constants here.  (\<^verbatim>\<open>ESGQualityAnalyzer\<close>, the variant of the class that reads PDF
  files, has the same methods and the same lists but for the last standards keyword.)
\<close>

definition standards_keywords :: "ustr list" where
  "standards_keywords =
     [ascii ''GRI'', ascii ''Global Reporting Initiative'',
      ascii ''SASB'', ascii ''Sustainability Accounting Standards Board'',
      ascii ''TCFD'', ascii ''Task Force on Climate-Related Financial Disclosures'',
      ascii ''ISSB'', ascii ''International Sustainability Standards Board'',
      ascii ''CSRD'', ascii ''Corporate Sustainability Reporting Directive'',
      ascii ''SDGs'', ascii ''Sustainable Development Goals'',
      [0x5168, 0x7403, 0x62A5, 0x544A, 0x5021, 0x8BAE],
      [0x53EF, 0x6301, 0x7EED, 0x53D1, 0x5C55, 0x4F1A, 0x8BA1, 0x51C6, 0x5219],
      [0x6C14, 0x5019, 0x76F8, 0x5173, 0x8D22, 0x52A1, 0x62AB, 0x9732],
      [0x56FD, 0x9645, 0x53EF, 0x6301, 0x7EED, 0x53D1, 0x5C55, 0x51C6, 0x5219],
      [0x6B27, 0x76DF, 0x4F01, 0x4E1A, 0x53EF, 0x6301, 0x7EED, 0x53D1, 0x5C55, 0x62A5, 0x544A,
       0x6307, 0x4EE4],
      [0x4E0A, 0x5E02, 0x516C, 0x53F8, 0x793E, 0x4F1A, 0x8D23, 0x4EFB, 0x6307, 0x5F15]]"

definition assurance_keywords :: "ustr list" where
  "assurance_keywords =
     [ [0x7B2C, 0x4E09, 0x65B9, 0x9274, 0x8BC1], [0x72EC, 0x7ACB, 0x9A8C, 0x8BC1],
      [0x5916, 0x90E8, 0x5BA1, 0x8BA1], [0x72EC, 0x7ACB, 0x4FDD, 0x8BC1],
      [0x72EC, 0x7ACB, 0x9274, 0x8BC1, 0x62A5, 0x544A],
      [0x7B2C, 0x4E09, 0x65B9, 0x9274, 0x8BC1], [0x72EC, 0x7ACB, 0x6838, 0x9A8C],
      [0x5916, 0x90E8, 0x9274, 0x8BC1], [0x5916, 0x90E8, 0x6838, 0x9A8C],
      ascii ''assured by'',
      ascii ''verified by'', [0x72EC, 0x7ACB, 0x5BA1, 0x8BA1, 0x5E08, 0x62A5, 0x544A],
      ascii ''assurance'', ascii ''third-party verification'',
      ascii ''independent audit'']"

definition quantitative_units :: "ustr list" where
  "quantitative_units =
     [ [0x5428], ascii ''%'', [0x5343, 0x74E6, 0x65F6], [0x7ACB, 0x65B9, 0x7C73],
      [0x5C0F, 0x65F6], [0x4EBA, 0x6B21], [0x5143]]"

definition kpi_keywords :: "ustr list" where
  "kpi_keywords =
     [ [0x5173, 0x952E, 0x7EE9, 0x6548, 0x6307, 0x6807],
      [0x73AF, 0x5883, 0x7EE9, 0x6548, 0x6570, 0x636E],
      [0x793E, 0x4F1A, 0x7EE9, 0x6548, 0x6570, 0x636E],
      [0x53EF, 0x6301, 0x7EED, 0x53D1, 0x5C55, 0x8868, 0x73B0],
      [0x45, 0x53, 0x47, 0x20, 0x6570, 0x636E],
      [0x7EE9, 0x6548, 0x6307, 0x6807, 0x4E00, 0x89C8],
      [0x6838, 0x5FC3, 0x6307, 0x6807], ascii ''KPI'']"

section \<open>Keyword checks\<close>

text \<open>
  \<open>str_contains k t\<close> is Python's \<^verbatim>\<open>k in t\<close> on strings: \<open>k\<close> is tried as a prefix
  at every position of \<open>t\<close>, the end included.
\<close>

fun str_contains :: "ustr \<Rightarrow> ustr \<Rightarrow> bool" where
  "str_contains k [] = (k = [])"
| "str_contains k (x # xs) = (prefix k (x # xs) \<or> str_contains k xs)"

text \<open>
  The loop shared by the two keyword checks: the first keyword whose lowered form is in
  the (already lowered) text returns 1, and the end of the list returns 0.
\<close>

fun keyword_loop :: "ucd \<Rightarrow> ustr list \<Rightarrow> ustr \<Rightarrow> int" where
  "keyword_loop u [] text = 0"
| "keyword_loop u (keyword # rest) text =
     (if str_contains (to_lower u keyword) text then 1 else keyword_loop u rest text)"

definition check_standards_compliance :: "ucd \<Rightarrow> ustr \<Rightarrow> int" where
  "check_standards_compliance u text =
     (let text = to_lower u text in keyword_loop u standards_keywords text)"

definition check_third_party_assurance :: "ucd \<Rightarrow> ustr \<Rightarrow> int" where
  "check_third_party_assurance u text =
     (let text = to_lower u text in keyword_loop u assurance_keywords text)"

section \<open>Regular expressions\<close>

text \<open>
  The three patterns of the program are written in the fragment of module \<^verbatim>\<open>re\<close>
  below.  A character class matches one code point: \<^verbatim>\<open>\d\<close>, \<^verbatim>\<open>\s\<close>, the dot
  (anything but a line feed, as no pattern sets \<^verbatim>\<open>re.DOTALL\<close>), a literal, and a set
  such as \<^verbatim>\<open>[\n]\<close>.
\<close>

datatype cclass = Digit | Space | Dot | Lit codepoint | OneOf "codepoint list"

fun cc_match :: "ucd \<Rightarrow> cclass \<Rightarrow> codepoint \<Rightarrow> bool" where
  "cc_match u Digit c = (decimal u c \<noteq> None)"
| "cc_match u Space c = whitespace u c"
| "cc_match u Dot c = (c \<noteq> 10)"
| "cc_match u (Lit x) c = (c = x)"
| "cc_match u (OneOf xs) c = (c \<in> set xs)"

text \<open>
  Every quantifier of the three patterns ranges over one character class or, for
  \<^verbatim>\<open>?\<close>, over a group: \<open>Star\<close> is \<^verbatim>\<open>*\<close>, \<open>Plus\<close> is \<^verbatim>\<open>+\<close>, \<open>LazyStar\<close> is
  \<^verbatim>\<open>*?\<close>, \<open>Times n\<close> is \<^verbatim>\<open>{n}\<close>, \<open>Opt\<close> is \<^verbatim>\<open>?\<close>, \<open>Bol\<close> is \<^verbatim>\<open>^\<close> and
  \<open>Group i\<close> is the \<open>i\<close>-th pair of parentheses.
\<close>

datatype regex =
    Eps
  | Atom cclass
  | Bol
  | Seq regex regex
  | Alt regex regex
  | Opt regex
  | Star cclass
  | Plus cclass
  | LazyStar cclass
  | Times nat cclass
  | Group nat regex

text \<open>
  The matcher is the backtracking search of \<^verbatim>\<open>re\<close>.  A state is the code point just
  before the current position (\<open>None\<close> at the start of the text), the text still to be
  read, and the groups closed so far.  \<open>rmatch\<close> returns every way of matching the
  expression from a state, in the order in which the search tries them: the head of the
  list is the match that \<^verbatim>\<open>re\<close> reports.
\<close>

type_synonym mstate = "codepoint option \<times> ustr \<times> (nat \<times> ustr) list"

fun greedy_run :: "(codepoint \<Rightarrow> bool) \<Rightarrow> mstate \<Rightarrow> mstate list" where
  "greedy_run P (p, [], g) = [(p, [], g)]"
| "greedy_run P (p, x # xs, g) =
     (if P x then greedy_run P (Some x, xs, g) else []) @ [(p, x # xs, g)]"

fun lazy_run :: "(codepoint \<Rightarrow> bool) \<Rightarrow> mstate \<Rightarrow> mstate list" where
  "lazy_run P (p, [], g) = [(p, [], g)]"
| "lazy_run P (p, x # xs, g) =
     (p, x # xs, g) # (if P x then lazy_run P (Some x, xs, g) else [])"

fun one_char :: "(codepoint \<Rightarrow> bool) \<Rightarrow> mstate \<Rightarrow> mstate list" where
  "one_char P (p, [], g) = []"
| "one_char P (p, x # xs, g) = (if P x then [(Some x, xs, g)] else [])"

fun times_run :: "(codepoint \<Rightarrow> bool) \<Rightarrow> nat \<Rightarrow> mstate \<Rightarrow> mstate list" where
  "times_run P 0 st = [st]"
| "times_run P (Suc n) (p, [], g) = []"
| "times_run P (Suc n) (p, x # xs, g) = (if P x then times_run P n (Some x, xs, g) else [])"

text \<open>
  \<open>at_bol\<close> is \<^verbatim>\<open>^\<close>: the start of the text and, under \<^verbatim>\<open>re.MULTILINE\<close>, the
  position after a line feed.
\<close>

definition at_bol :: "bool \<Rightarrow> codepoint option \<Rightarrow> bool" where
  "at_bol multiline p = (p = None \<or> (multiline \<and> p = Some 10))"

fun rmatch :: "bool \<Rightarrow> ucd \<Rightarrow> regex \<Rightarrow> mstate \<Rightarrow> mstate list" where
  "rmatch ml u Eps st = [st]"
| "rmatch ml u (Atom c) st = one_char (cc_match u c) st"
| "rmatch ml u Bol (p, xs, g) = (if at_bol ml p then [(p, xs, g)] else [])"
| "rmatch ml u (Seq r1 r2) st = concat (map (rmatch ml u r2) (rmatch ml u r1 st))"
| "rmatch ml u (Alt r1 r2) st = rmatch ml u r1 st @ rmatch ml u r2 st"
| "rmatch ml u (Opt r) st = rmatch ml u r st @ [st]"
| "rmatch ml u (Star c) st = greedy_run (cc_match u c) st"
| "rmatch ml u (Plus c) st = concat (map (greedy_run (cc_match u c)) (one_char (cc_match u c) st))"
| "rmatch ml u (LazyStar c) st = lazy_run (cc_match u c) st"
| "rmatch ml u (Times n c) st = times_run (cc_match u c) n st"
| "rmatch ml u (Group i r) (p, xs, g) =
     map (\<lambda>(p', xs', g'). (p', xs', (i, take (length xs - length xs') xs) # g'))
       (rmatch ml u r (p, xs, g))"

text \<open>
  \<^verbatim>\<open>re.match\<close> tries the pattern at the start of the text only; \<^verbatim>\<open>re.search\<close> tries
  it at every position from left to right, the end of the text included.  Both return
  the first match found or \<open>None\<close>.
\<close>

definition first_match :: "mstate list \<Rightarrow> mstate option" where
  "first_match ms = (case ms of [] \<Rightarrow> None | m # _ \<Rightarrow> Some m)"

definition re_match :: "bool \<Rightarrow> ucd \<Rightarrow> regex \<Rightarrow> ustr \<Rightarrow> mstate option" where
  "re_match ml u r text = first_match (rmatch ml u r (None, text, []))"

fun search_from :: "bool \<Rightarrow> ucd \<Rightarrow> regex \<Rightarrow> codepoint option \<Rightarrow> ustr \<Rightarrow> mstate option" where
  "search_from ml u r p [] = first_match (rmatch ml u r (p, [], []))"
| "search_from ml u r p (x # xs) =
     (case first_match (rmatch ml u r (p, x # xs, [])) of
        Some m \<Rightarrow> Some m
      | None \<Rightarrow> search_from ml u r (Some x) xs)"

definition re_search :: "bool \<Rightarrow> ucd \<Rightarrow> regex \<Rightarrow> ustr \<Rightarrow> mstate option" where
  "re_search ml u r text = search_from ml u r None text"

text \<open>\<open>group m i\<close> is \<^verbatim>\<open>m.group(i)\<close>: the text of the group, \<open>None\<close> if it took no part.\<close>

definition group :: "mstate \<Rightarrow> nat \<Rightarrow> ustr option" where
  "group m i = (case m of (p, xs, g) \<Rightarrow> map_of g i)"

text \<open>
  A vocabulary entry spliced into a pattern stands for itself: no entry of
  \<open>quantitative_units\<close> or \<open>kpi_keywords\<close> contains a character that is special in a
  pattern (lemma \<open>vocabulary_literal\<close> below), and the blank of the fifth KPI phrase is
  literal because no pattern sets \<^verbatim>\<open>re.VERBOSE\<close>.
\<close>

fun lits :: "ustr \<Rightarrow> regex" where
  "lits [] = Eps"
| "lits (c # cs) = Seq (Atom (Lit c)) (lits cs)"

definition re_special :: "codepoint list" where
  "re_special = [46, 94, 36, 42, 43, 63, 123, 125, 91, 93, 92, 124, 40, 41]"

section \<open>The quantitative-metrics check\<close>

text \<open>
  Rule 1 searches \<^verbatim>\<open>\d+(\.\d+)?\s*\<close> followed by the unit; rule 2 searches
  \<^verbatim>\<open>^\<close>\<open>keyword\<close>\<^verbatim>\<open>|[\n]\<close>\<open>keyword\<close> under \<^verbatim>\<open>re.MULTILINE\<close>, where the bar
  separates the whole left side from the whole right side.
\<close>

definition number_unit_pattern :: "ustr \<Rightarrow> regex" where
  "number_unit_pattern unit =
     Seq (Plus Digit)
       (Seq (Opt (Group 1 (Seq (Atom (Lit 46)) (Plus Digit))))
         (Seq (Star Space) (lits unit)))"

definition kpi_pattern :: "ustr \<Rightarrow> regex" where
  "kpi_pattern keyword =
     Alt (Seq Bol (lits keyword)) (Seq (Atom (OneOf [10])) (lits keyword))"

text \<open>
  Each loop returns from the function at its first match (\<open>Some 1\<close>) or falls through
  to the statement after it (\<open>None\<close>).
\<close>

fun unit_loop :: "ucd \<Rightarrow> ustr list \<Rightarrow> ustr \<Rightarrow> int option" where
  "unit_loop u [] text = None"
| "unit_loop u (unit # rest) text =
     (let pattern = number_unit_pattern unit in
      if re_search False u pattern text \<noteq> None then Some 1 else unit_loop u rest text)"

fun kpi_loop :: "ucd \<Rightarrow> ustr list \<Rightarrow> ustr \<Rightarrow> int option" where
  "kpi_loop u [] text = None"
| "kpi_loop u (keyword # rest) text =
     (let pattern = kpi_pattern keyword in
      if re_search True u pattern text \<noteq> None then Some 1 else kpi_loop u rest text)"

definition check_quantitative_metrics :: "ucd \<Rightarrow> ustr \<Rightarrow> int" where
  "check_quantitative_metrics u text =
     (case unit_loop u quantitative_units text of
        Some r \<Rightarrow> r
      | None \<Rightarrow>
          (case kpi_loop u kpi_keywords text of
             Some r \<Rightarrow> r
           | None \<Rightarrow> 0))"

section \<open>Scoring one report\<close>

text \<open>
  The file system is a partial map from paths to decoded contents; a path outside its
  domain is a file that \<^verbatim>\<open>open\<close> or \<^verbatim>\<open>read\<close> fails on.  \<open>extract_text_from_txt\<close>
  catches that failure and returns the empty text.
\<close>

type_synonym filesystem = "ustr \<rightharpoonup> ustr"

definition extract_text_from_txt :: "filesystem \<Rightarrow> ustr \<Rightarrow> ustr" where
  "extract_text_from_txt fs txt_path = (case fs txt_path of Some content \<Rightarrow> content | None \<Rightarrow> [])"

record scores =
  standards_score :: int
  assurance_score :: int
  metrics_score :: int
  total_score :: int

definition analyze_report :: "ucd \<Rightarrow> filesystem \<Rightarrow> ustr \<Rightarrow> scores option" where
  "analyze_report u fs txt_path =
     (let text = extract_text_from_txt fs txt_path in
      if text = [] then None
      else
        let standards = check_standards_compliance u text;
            assurance = check_third_party_assurance u text;
            metrics = check_quantitative_metrics u text;
            total = standards + assurance + metrics
        in Some \<lparr> standards_score = standards, assurance_score = assurance,
                  metrics_score = metrics, total_score = total \<rparr>)"

section \<open>File names\<close>

text \<open>The pattern \<^verbatim>\<open>(\d{6})-(\d{4})-(.*?)\.txt\<close>.\<close>

definition filename_pattern :: regex where
  "filename_pattern =
     Seq (Group 1 (Times 6 Digit))
       (Seq (Atom (Lit 45))
         (Seq (Group 2 (Times 4 Digit))
           (Seq (Atom (Lit 45))
             (Seq (Group 3 (LazyStar Dot))
               (lits (ascii ''.txt''))))))"

text \<open>
  \<^verbatim>\<open>int\<close> raises \<^verbatim>\<open>TypeError\<close> on \<^verbatim>\<open>None\<close> and \<^verbatim>\<open>ValueError\<close> on a string that
  is no number.  On a non-empty string of decimal digits, the only kind of argument the
  program passes, it returns the number they write in base ten.  (The signs, blanks and
  underscores that \<^verbatim>\<open>int\<close> also accepts are not modelled: such a string is reported
  as \<open>ValueError\<close> here.)
\<close>

datatype error = ValueError | TypeError

fun digits_value :: "ucd \<Rightarrow> nat \<Rightarrow> ustr \<Rightarrow> nat option" where
  "digits_value u acc [] = Some acc"
| "digits_value u acc (d # ds) =
     (case decimal u d of
        None \<Rightarrow> None
      | Some v \<Rightarrow> digits_value u (10 * acc + v) ds)"

definition py_int :: "ucd \<Rightarrow> ustr option \<Rightarrow> error + int" where
  "py_int u arg =
     (case arg of
        None \<Rightarrow> Inl TypeError
      | Some s \<Rightarrow>
          (if s = [] then Inl ValueError
           else case digits_value u 0 s of
                  None \<Rightarrow> Inl ValueError
                | Some n \<Rightarrow> Inr (int n)))"

text \<open>
  The result is the triple the function returns, \<open>(None, None, None)\<close> when the pattern
  does not match, or the exception that leaves it.
\<close>

type_synonym parsed = "ustr option \<times> int option \<times> ustr option"

definition parse_filename :: "ucd \<Rightarrow> ustr \<Rightarrow> error + parsed" where
  "parse_filename u filename =
     (case re_match False u filename_pattern filename of
        Some m \<Rightarrow>
          (let stock_code = group m 1 in
           case py_int u (group m 2) of
             Inl e \<Rightarrow> Inl e
           | Inr year \<Rightarrow>
               (let company_name = group m 3 in
                Inr (stock_code, Some year, company_name)))
      | None \<Rightarrow> Inr (None, None, None))"

section \<open>The batch driver\<close>

text \<open>
  The body of the loop of \<^verbatim>\<open>main\<close>, on the two lists it appends to.  A file is given
  by its name, which is also its key in the file system.  The reason of a failure is one
  of the two literal strings, or the formatted string of the \<^verbatim>\<open>except\<close> branch, whose
  tail is the library's message for the exception.
\<close>

record report_row = scores +
  stock_code :: "ustr option"
  company_name :: "ustr option"
  year :: int

datatype reason = Literal ustr | Processing_error error

record failure =
  failed_file :: ustr
  reason :: reason

record batch =
  results :: "report_row list"
  failed_files :: "failure list"

definition analysis_failed :: ustr where
  "analysis_failed = [0x5206, 0x6790, 0x5931, 0x8D25]"

definition year_out_of_range :: ustr where
  "year_out_of_range =
     [0x5E74, 0x4EFD, 0x4E0D, 0x5728] @ ascii ''2015-2023'' @ [0x8303, 0x56F4, 0x5185]"

text \<open>\<open>record_failure\<close> is \<^verbatim>\<open>failed_files.append({'file': ..., 'reason': ...})\<close>.\<close>

definition record_failure :: "batch \<Rightarrow> ustr \<Rightarrow> reason \<Rightarrow> batch" where
  "record_failure b name r = b\<lparr>failed_files := failed_files b @ [\<lparr>failed_file = name, reason = r\<rparr>]\<rparr>"

text \<open>
  The test \<^verbatim>\<open>year and 2015 <= year <= 2023\<close>, in which \<^verbatim>\<open>None\<close> and \<^verbatim>\<open>0\<close> count
  as false.
\<close>

definition year_selected :: "int option \<Rightarrow> bool" where
  "year_selected parsed_year =
     (case parsed_year of None \<Rightarrow> False | Some y \<Rightarrow> y \<noteq> 0 \<and> 2015 \<le> y \<and> y \<le> 2023)"

definition process_file :: "ucd \<Rightarrow> filesystem \<Rightarrow> batch \<Rightarrow> ustr \<Rightarrow> batch" where
  "process_file u fs b txt_file =
     (case parse_filename u txt_file of
        Inl e \<Rightarrow> record_failure b txt_file (Processing_error e)
      | Inr (code, parsed_year, name) \<Rightarrow>
          (case parsed_year of
             Some y \<Rightarrow>
               if year_selected parsed_year then
                 (case analyze_report u fs txt_file of
                    Some sc \<Rightarrow>
                      b\<lparr>results := results b @
                          [\<lparr>standards_score = standards_score sc,
                            assurance_score = assurance_score sc,
                            metrics_score = metrics_score sc,
                            total_score = total_score sc,
                            stock_code = code, company_name = name,
                            year = y\<rparr>]\<rparr>
                  | None \<Rightarrow> record_failure b txt_file (Literal analysis_failed))
               else record_failure b txt_file (Literal year_out_of_range)
           | None \<Rightarrow> record_failure b txt_file (Literal year_out_of_range)))"

fun main_loop :: "ucd \<Rightarrow> filesystem \<Rightarrow> batch \<Rightarrow> ustr list \<Rightarrow> batch" where
  "main_loop u fs b [] = b"
| "main_loop u fs b (txt_file # txt_files) = main_loop u fs (process_file u fs b txt_file) txt_files"

section \<open>What a pattern matches\<close>

text \<open>
  The reading of the patterns that the theorems are stated in.  \<open>adv p ys\<close> is the code
  point before the current position once \<open>ys\<close> has been read from a position preceded
  by \<open>p\<close>, and \<open>lang ml u r p ys\<close> says that the expression \<open>r\<close> matches exactly
  \<open>ys\<close> at such a position.
\<close>

definition adv :: "codepoint option \<Rightarrow> ustr \<Rightarrow> codepoint option" where
  "adv p ys = (if ys = [] then p else Some (last ys))"

fun lang :: "bool \<Rightarrow> ucd \<Rightarrow> regex \<Rightarrow> codepoint option \<Rightarrow> ustr \<Rightarrow> bool" where
  "lang ml u Eps p ys = (ys = [])"
| "lang ml u (Atom c) p ys = (\<exists>x. ys = [x] \<and> cc_match u c x)"
| "lang ml u Bol p ys = (ys = [] \<and> at_bol ml p)"
| "lang ml u (Seq r1 r2) p ys =
     (\<exists>y1 y2. ys = y1 @ y2 \<and> lang ml u r1 p y1 \<and> lang ml u r2 (adv p y1) y2)"
| "lang ml u (Alt r1 r2) p ys = (lang ml u r1 p ys \<or> lang ml u r2 p ys)"
| "lang ml u (Opt r) p ys = (lang ml u r p ys \<or> ys = [])"
| "lang ml u (Star c) p ys = list_all (cc_match u c) ys"
| "lang ml u (Plus c) p ys = (ys \<noteq> [] \<and> list_all (cc_match u c) ys)"
| "lang ml u (LazyStar c) p ys = list_all (cc_match u c) ys"
| "lang ml u (Times n c) p ys = (length ys = n \<and> list_all (cc_match u c) ys)"
| "lang ml u (Group i r) p ys = lang ml u r p ys"

text \<open>
  The two rules of the metrics check in the words of the specification.  A number with
  a unit is a non-empty run of digits, optionally a decimal point with a non-empty run
  of digits, any white space, and the unit; a KPI phrase is at the start of a line when
  it opens the text or follows a line feed.
\<close>

definition number_with_unit :: "ucd \<Rightarrow> ustr \<Rightarrow> ustr \<Rightarrow> bool" where
  "number_with_unit u unit s =
     (\<exists>ds frac ws.
        s = ds @ frac @ ws @ unit \<and>
        ds \<noteq> [] \<and> list_all (\<lambda>d. decimal u d \<noteq> None) ds \<and>
        (frac = [] \<or> (\<exists>fs. frac = 46 # fs \<and> fs \<noteq> [] \<and> list_all (\<lambda>d. decimal u d \<noteq> None) fs)) \<and>
        list_all (whitespace u) ws)"

definition has_number_unit :: "ucd \<Rightarrow> ustr \<Rightarrow> bool" where
  "has_number_unit u text =
     (\<exists>unit\<in>set quantitative_units. \<exists>a s b. text = a @ s @ b \<and> number_with_unit u unit s)"

definition kpi_at_line_start :: "ustr \<Rightarrow> bool" where
  "kpi_at_line_start text =
     (\<exists>k\<in>set kpi_keywords. (\<exists>b. text = k @ b) \<or> (\<exists>a b. text = a @ 10 # k @ b))"

text \<open>
  The shape of a file name in the words of the specification: a code of six digits, a
  hyphen, a year of four digits, a hyphen, a name, and the extension.
\<close>

definition filename_shape :: "ucd \<Rightarrow> ustr \<Rightarrow> bool" where
  "filename_shape u filename =
     (\<exists>code yr name.
        filename = code @ [45] @ yr @ [45] @ name @ ascii ''.txt'' \<and>
        length code = 6 \<and> list_all (\<lambda>d. decimal u d \<noteq> None) code \<and>
        length yr = 4 \<and> list_all (\<lambda>d. decimal u d \<noteq> None) yr)"

section \<open>Substring containment\<close>

lemma str_contains_iff: "str_contains k t \<longleftrightarrow> (\<exists>a b. t = a @ k @ b)"
proof (induction t)
  case Nil
  then show ?case by auto
next
  case (Cons x xs)
  show ?case
  proof
    assume "str_contains k (x # xs)"
    then consider "prefix k (x # xs)" | "str_contains k xs" by auto
    then show "\<exists>a b. x # xs = a @ k @ b"
    proof cases
      case 1
      then obtain b where "x # xs = k @ b" by (auto simp: prefix_def)
      then have "x # xs = [] @ k @ b" by simp
      then show ?thesis by blast
    next
      case 2
      with Cons.IH obtain a b where "xs = a @ k @ b" by blast
      then have "x # xs = (x # a) @ k @ b" by simp
      then show ?thesis by blast
    qed
  next
    assume "\<exists>a b. x # xs = a @ k @ b"
    then obtain a b where ab: "x # xs = a @ k @ b" by blast
    show "str_contains k (x # xs)"
    proof (cases a)
      case Nil
      with ab have "prefix k (x # xs)" by (simp add: prefix_def)
      then show ?thesis by simp
    next
      case (Cons y ys)
      with ab have "xs = ys @ k @ b" by simp
      with Cons.IH have "str_contains k xs" by blast
      then show ?thesis by simp
    qed
  qed
qed

lemma keyword_loop_iff:
  "keyword_loop u ks text = (if \<exists>k\<in>set ks. str_contains (to_lower u k) text then 1 else 0)"
  by (induction ks) auto

lemma keyword_loop_range: "keyword_loop u ks text \<in> {0, 1}"
  by (simp add: keyword_loop_iff)

section \<open>The keyword checks are substring tests\<close>

lemma keyword_loop_substring:
  "keyword_loop u ks (to_lower u text) =
     (if \<exists>k\<in>set ks. \<exists>a b. to_lower u text = a @ to_lower u k @ b then 1 else 0)"
  by (simp only: keyword_loop_iff str_contains_iff)

lemmas run_keywords =
  check_standards_compliance_def check_third_party_assurance_def standards_keywords_def
  assurance_keywords_def ascii_def basic_latin_def

text \<open>
  Claim C1.  For every text, \<open>check_standards_compliance\<close> returns 1 exactly when some
  standards keyword, lowered, occurs as a substring of the lowered text (anywhere, with
  no condition on word boundaries), and 0 otherwise; \<open>check_third_party_assurance\<close> is
  the same against the assurance keywords.  The two results are independent: the four
  texts at the end score (1, 1), (1, 0), (0, 1) and (0, 0), the second through the
  letters \<^verbatim>\<open>gri\<close> inside a longer word.
\<close>

theorem keyword_checks_substring:
  "(check_standards_compliance u text = 1 \<longleftrightarrow>
      (\<exists>k\<in>set standards_keywords. \<exists>a b. to_lower u text = a @ to_lower u k @ b)) \<and>
   (check_standards_compliance u text = 0 \<longleftrightarrow>
      \<not> (\<exists>k\<in>set standards_keywords. \<exists>a b. to_lower u text = a @ to_lower u k @ b)) \<and>
   (check_third_party_assurance u text = 1 \<longleftrightarrow>
      (\<exists>k\<in>set assurance_keywords. \<exists>a b. to_lower u text = a @ to_lower u k @ b)) \<and>
   (check_third_party_assurance u text = 0 \<longleftrightarrow>
      \<not> (\<exists>k\<in>set assurance_keywords. \<exists>a b. to_lower u text = a @ to_lower u k @ b)) \<and>
   (check_standards_compliance basic_latin (ascii ''GRI, assured by X''),
    check_third_party_assurance basic_latin (ascii ''GRI, assured by X'')) = (1, 1) \<and>
   (check_standards_compliance basic_latin (ascii ''agriculture''),
    check_third_party_assurance basic_latin (ascii ''agriculture'')) = (1, 0) \<and>
   (check_standards_compliance basic_latin (ascii ''Verified By X''),
    check_third_party_assurance basic_latin (ascii ''Verified By X'')) = (0, 1) \<and>
   (check_standards_compliance basic_latin (ascii ''annual report''),
    check_third_party_assurance basic_latin (ascii ''annual report'')) = (0, 0)"
proof -
  have s: "check_standards_compliance u text =
      (if \<exists>k\<in>set standards_keywords. \<exists>a b. to_lower u text = a @ to_lower u k @ b then 1 else 0)"
    unfolding check_standards_compliance_def Let_def by (rule keyword_loop_substring)
  have t: "check_third_party_assurance u text =
      (if \<exists>k\<in>set assurance_keywords. \<exists>a b. to_lower u text = a @ to_lower u k @ b then 1 else 0)"
    unfolding check_third_party_assurance_def Let_def by (rule keyword_loop_substring)
  have e1: "(check_standards_compliance basic_latin (ascii ''GRI, assured by X''),
    check_third_party_assurance basic_latin (ascii ''GRI, assured by X'')) = (1, 1)"
    by (simp add: run_keywords)
  have e2: "(check_standards_compliance basic_latin (ascii ''agriculture''),
    check_third_party_assurance basic_latin (ascii ''agriculture'')) = (1, 0)"
    by (simp add: run_keywords)
  have e3: "(check_standards_compliance basic_latin (ascii ''Verified By X''),
    check_third_party_assurance basic_latin (ascii ''Verified By X'')) = (0, 1)"
    by (simp add: run_keywords)
  have e4: "(check_standards_compliance basic_latin (ascii ''annual report''),
    check_third_party_assurance basic_latin (ascii ''annual report'')) = (0, 0)"
    by (simp add: run_keywords)
  have s1: "check_standards_compliance u text = 1 \<longleftrightarrow>
      (\<exists>k\<in>set standards_keywords. \<exists>a b. to_lower u text = a @ to_lower u k @ b)"
    by (subst s) simp
  have s0: "check_standards_compliance u text = 0 \<longleftrightarrow>
      \<not> (\<exists>k\<in>set standards_keywords. \<exists>a b. to_lower u text = a @ to_lower u k @ b)"
    by (subst s) simp
  have t1: "check_third_party_assurance u text = 1 \<longleftrightarrow>
      (\<exists>k\<in>set assurance_keywords. \<exists>a b. to_lower u text = a @ to_lower u k @ b)"
    by (subst t) simp
  have t0: "check_third_party_assurance u text = 0 \<longleftrightarrow>
      \<not> (\<exists>k\<in>set assurance_keywords. \<exists>a b. to_lower u text = a @ to_lower u k @ b)"
    by (subst t) simp
  from s1 s0 t1 t0 e1 e2 e3 e4 show ?thesis by (intro conjI)
qed

theorem keyword_checks_substring_witness:
  "check_standards_compliance basic_latin (ascii ''our gri index'') = 1 \<and>
   (\<exists>k\<in>set standards_keywords. \<exists>a b.
      to_lower basic_latin (ascii ''our gri index'') = a @ to_lower basic_latin k @ b)"
proof -
  have "check_standards_compliance basic_latin (ascii ''our gri index'') = 1"
    by (simp add: run_keywords)
  with keyword_checks_substring [of basic_latin "ascii ''our gri index''"] show ?thesis
    by blast
qed

section \<open>The matcher against the reading of the patterns\<close>

lemma adv_Nil [simp]: "adv p [] = p"
  by (simp add: adv_def)

lemma adv_Cons [simp]: "adv p (x # xs) = adv (Some x) xs"
  by (simp add: adv_def)

lemma adv_append [simp]: "adv p (a @ b) = adv (adv p a) b"
  by (simp add: adv_def)

lemma greedy_run_mem:
  "(p', rest, g') \<in> set (greedy_run P (p, xs, g)) \<longleftrightarrow>
     g' = g \<and> (\<exists>ys. xs = ys @ rest \<and> list_all P ys \<and> p' = adv p ys)"
proof (induction xs arbitrary: p)
  case Nil
  then show ?case by auto
next
  case (Cons x xs)
  show ?case
  proof
    assume "(p', rest, g') \<in> set (greedy_run P (p, x # xs, g))"
    then consider "P x" "(p', rest, g') \<in> set (greedy_run P (Some x, xs, g))"
      | "(p', rest, g') = (p, x # xs, g)"
      by (auto split: if_splits)
    then show "g' = g \<and> (\<exists>ys. x # xs = ys @ rest \<and> list_all P ys \<and> p' = adv p ys)"
    proof cases
      case 1
      with Cons.IH obtain ys where "g' = g" "xs = ys @ rest" "list_all P ys" "p' = adv (Some x) ys"
        by blast
      with 1 have "x # xs = (x # ys) @ rest \<and> list_all P (x # ys) \<and> p' = adv p (x # ys)"
        by simp
      with \<open>g' = g\<close> show ?thesis by blast
    next
      case 2
      then have "x # xs = [] @ rest \<and> list_all P [] \<and> p' = adv p []" by simp
      with 2 show ?thesis by blast
    qed
  next
    assume "g' = g \<and> (\<exists>ys. x # xs = ys @ rest \<and> list_all P ys \<and> p' = adv p ys)"
    then obtain ys where g: "g' = g" and ys: "x # xs = ys @ rest" "list_all P ys" "p' = adv p ys"
      by blast
    show "(p', rest, g') \<in> set (greedy_run P (p, x # xs, g))"
    proof (cases ys)
      case Nil
      with ys have "rest = x # xs" "p' = p" by simp_all
      with g show ?thesis by simp
    next
      case (Cons y ys')
      with ys have "y = x" "xs = ys' @ rest" "P x" "list_all P ys'" "p' = adv (Some x) ys'"
        by simp_all
      with Cons.IH g have "(p', rest, g') \<in> set (greedy_run P (Some x, xs, g))" by blast
      with \<open>P x\<close> show ?thesis by simp
    qed
  qed
qed

lemma lazy_run_set: "set (lazy_run P st) = set (greedy_run P st)"
proof -
  have "set (lazy_run P (p, xs, g)) = set (greedy_run P (p, xs, g))" for p xs g
    by (induction xs arbitrary: p) auto
  then show ?thesis by (cases st) auto
qed

lemma one_char_mem:
  "(p', rest, g') \<in> set (one_char P (p, xs, g)) \<longleftrightarrow>
     g' = g \<and> (\<exists>x. xs = x # rest \<and> P x \<and> p' = Some x)"
  by (cases xs) auto

lemma times_run_mem:
  "(p', rest, g') \<in> set (times_run P n (p, xs, g)) \<longleftrightarrow>
     g' = g \<and> (\<exists>ys. xs = ys @ rest \<and> length ys = n \<and> list_all P ys \<and> p' = adv p ys)"
proof (induction n arbitrary: p xs)
  case 0
  then show ?case by auto
next
  case (Suc n)
  show ?case
  proof (cases xs)
    case Nil
    then show ?thesis by auto
  next
    case (Cons x xs')
    show ?thesis
    proof (cases "P x")
      case False
      have "\<not> (\<exists>ys. x # xs' = ys @ rest \<and> length ys = Suc n \<and> list_all P ys \<and> p' = adv p ys)"
      proof
        assume "\<exists>ys. x # xs' = ys @ rest \<and> length ys = Suc n \<and> list_all P ys \<and> p' = adv p ys"
        then obtain ys where ys: "x # xs' = ys @ rest" "length ys = Suc n" "list_all P ys" by blast
        then obtain y ys' where "ys = y # ys'" by (cases ys) auto
        with ys have "P x" by simp
        with False show False by simp
      qed
      with False Cons show ?thesis by simp
    next
      case True
      have "(\<exists>ys. x # xs' = ys @ rest \<and> length ys = Suc n \<and> list_all P ys \<and> p' = adv p ys) \<longleftrightarrow>
            (\<exists>ys. xs' = ys @ rest \<and> length ys = n \<and> list_all P ys \<and> p' = adv (Some x) ys)"
      proof
        assume "\<exists>ys. x # xs' = ys @ rest \<and> length ys = Suc n \<and> list_all P ys \<and> p' = adv p ys"
        then obtain ys where ys: "x # xs' = ys @ rest" "length ys = Suc n" "list_all P ys" "p' = adv p ys"
          by blast
        then obtain y ys' where "ys = y # ys'" by (cases ys) auto
        with ys have "xs' = ys' @ rest \<and> length ys' = n \<and> list_all P ys' \<and> p' = adv (Some x) ys'"
          by simp
        then show "\<exists>ys. xs' = ys @ rest \<and> length ys = n \<and> list_all P ys \<and> p' = adv (Some x) ys"
          by blast
      next
        assume "\<exists>ys. xs' = ys @ rest \<and> length ys = n \<and> list_all P ys \<and> p' = adv (Some x) ys"
        then obtain ys where "xs' = ys @ rest" "length ys = n" "list_all P ys" "p' = adv (Some x) ys"
          by blast
        with True have "x # xs' = (x # ys) @ rest \<and> length (x # ys) = Suc n \<and> list_all P (x # ys) \<and>
            p' = adv p (x # ys)" by simp
        then show "\<exists>ys. x # xs' = ys @ rest \<and> length ys = Suc n \<and> list_all P ys \<and> p' = adv p ys"
          by blast
      qed
      with True Cons Suc.IH [of "Some x" xs'] show ?thesis by simp
    qed
  qed
qed


lemma rmatch_lang:
  "(\<exists>g'. (p', rest, g') \<in> set (rmatch ml u r (p, xs, g))) \<longleftrightarrow>
     (\<exists>ys. xs = ys @ rest \<and> lang ml u r p ys \<and> p' = adv p ys)"
proof (induction r arbitrary: p xs g p' rest)
  case Eps
  show ?case by auto
next
  case (Atom c)
  show ?case by (auto simp: one_char_mem)
next
  case Bol
  show ?case by auto
next
  case (Seq r1 r2)
  show ?case
  proof
    assume "\<exists>g'. (p', rest, g') \<in> set (rmatch ml u (Seq r1 r2) (p, xs, g))"
    then obtain g' p1 x1 g1 where
      m1: "(p1, x1, g1) \<in> set (rmatch ml u r1 (p, xs, g))" and
      m2: "(p', rest, g') \<in> set (rmatch ml u r2 (p1, x1, g1))"
      by auto
    from m1 Seq.IH(1) obtain y1 where y1: "xs = y1 @ x1" "lang ml u r1 p y1" "p1 = adv p y1"
      by blast
    from m2 Seq.IH(2) obtain y2 where y2: "x1 = y2 @ rest" "lang ml u r2 p1 y2" "p' = adv p1 y2"
      by blast
    from y1 y2 have "xs = (y1 @ y2) @ rest \<and> lang ml u (Seq r1 r2) p (y1 @ y2) \<and> p' = adv p (y1 @ y2)"
      by auto
    then show "\<exists>ys. xs = ys @ rest \<and> lang ml u (Seq r1 r2) p ys \<and> p' = adv p ys"
      by blast
  next
    assume "\<exists>ys. xs = ys @ rest \<and> lang ml u (Seq r1 r2) p ys \<and> p' = adv p ys"
    then obtain y1 y2 where ys: "xs = (y1 @ y2) @ rest" "lang ml u r1 p y1"
      "lang ml u r2 (adv p y1) y2" "p' = adv p (y1 @ y2)"
      by auto
    then have "\<exists>ys. xs = ys @ (y2 @ rest) \<and> lang ml u r1 p ys \<and> adv p y1 = adv p ys"
      by auto
    with Seq.IH(1) [of "adv p y1" "y2 @ rest" p xs g] obtain g1 where
      m1: "(adv p y1, y2 @ rest, g1) \<in> set (rmatch ml u r1 (p, xs, g))"
      by blast
    from ys have "\<exists>zs. y2 @ rest = zs @ rest \<and> lang ml u r2 (adv p y1) zs \<and> p' = adv (adv p y1) zs"
      by auto
    with Seq.IH(2) [of p' rest "adv p y1" "y2 @ rest" g1] obtain g' where
      m2: "(p', rest, g') \<in> set (rmatch ml u r2 (adv p y1, y2 @ rest, g1))"
      by blast
    from m1 m2 have "(p', rest, g') \<in> set (rmatch ml u (Seq r1 r2) (p, xs, g))"
      by auto
    then show "\<exists>g'. (p', rest, g') \<in> set (rmatch ml u (Seq r1 r2) (p, xs, g))"
      by blast
  qed
next
  case (Alt r1 r2)
  have "(\<exists>g'. (p', rest, g') \<in> set (rmatch ml u (Alt r1 r2) (p, xs, g))) \<longleftrightarrow>
        (\<exists>g'. (p', rest, g') \<in> set (rmatch ml u r1 (p, xs, g))) \<or>
        (\<exists>g'. (p', rest, g') \<in> set (rmatch ml u r2 (p, xs, g)))"
    by auto
  also have "\<dots> \<longleftrightarrow> (\<exists>ys. xs = ys @ rest \<and> lang ml u r1 p ys \<and> p' = adv p ys) \<or>
        (\<exists>ys. xs = ys @ rest \<and> lang ml u r2 p ys \<and> p' = adv p ys)"
    by (simp only: Alt.IH)
  also have "\<dots> \<longleftrightarrow> (\<exists>ys. xs = ys @ rest \<and> lang ml u (Alt r1 r2) p ys \<and> p' = adv p ys)"
    by auto
  finally show ?case .
next
  case (Opt r)
  have "(\<exists>g'. (p', rest, g') \<in> set (rmatch ml u (Opt r) (p, xs, g))) \<longleftrightarrow>
        (\<exists>g'. (p', rest, g') \<in> set (rmatch ml u r (p, xs, g))) \<or> (p' = p \<and> rest = xs)"
    by auto
  also have "\<dots> \<longleftrightarrow> (\<exists>ys. xs = ys @ rest \<and> lang ml u r p ys \<and> p' = adv p ys) \<or>
        (p' = p \<and> rest = xs)"
    by (simp only: Opt.IH)
  also have "\<dots> \<longleftrightarrow> (\<exists>ys. xs = ys @ rest \<and> lang ml u (Opt r) p ys \<and> p' = adv p ys)"
    by auto
  finally show ?case .
next
  case (Star c)
  show ?case by (simp add: greedy_run_mem)
next
  case (Plus c)
  show ?case
  proof
    assume "\<exists>g'. (p', rest, g') \<in> set (rmatch ml u (Plus c) (p, xs, g))"
    then obtain g' p1 x1 g1 where
      m1: "(p1, x1, g1) \<in> set (one_char (cc_match u c) (p, xs, g))" and
      m2: "(p', rest, g') \<in> set (greedy_run (cc_match u c) (p1, x1, g1))"
      by auto
    from m1 obtain x where x: "xs = x # x1" "cc_match u c x" "p1 = Some x"
      by (auto simp: one_char_mem)
    from m2 obtain ys where ys: "x1 = ys @ rest" "list_all (cc_match u c) ys" "p' = adv p1 ys"
      by (auto simp: greedy_run_mem)
    from x ys have "xs = (x # ys) @ rest \<and> lang ml u (Plus c) p (x # ys) \<and> p' = adv p (x # ys)"
      by simp
    then show "\<exists>ys. xs = ys @ rest \<and> lang ml u (Plus c) p ys \<and> p' = adv p ys"
      by blast
  next
    assume "\<exists>ys. xs = ys @ rest \<and> lang ml u (Plus c) p ys \<and> p' = adv p ys"
    then obtain ys where ys: "xs = ys @ rest" "ys \<noteq> []" "list_all (cc_match u c) ys" "p' = adv p ys"
      by auto
    then obtain y ys' where c: "ys = y # ys'" by (cases ys) auto
    with ys have m1: "(Some y, ys' @ rest, g) \<in> set (one_char (cc_match u c) (p, xs, g))"
      by (simp add: one_char_mem)
    from c ys have "\<exists>zs. ys' @ rest = zs @ rest \<and> list_all (cc_match u c) zs \<and> p' = adv (Some y) zs"
      by auto
    then have m2: "(p', rest, g) \<in> set (greedy_run (cc_match u c) (Some y, ys' @ rest, g))"
      by (simp add: greedy_run_mem)
    from m1 m2 have "(p', rest, g) \<in> set (rmatch ml u (Plus c) (p, xs, g))"
      by auto
    then show "\<exists>g'. (p', rest, g') \<in> set (rmatch ml u (Plus c) (p, xs, g))"
      by blast
  qed
next
  case (LazyStar c)
  show ?case by (simp add: lazy_run_set greedy_run_mem)
next
  case (Times n c)
  show ?case by (auto simp: times_run_mem)
next
  case (Group i r)
  have "(\<exists>g'. (p', rest, g') \<in> set (rmatch ml u (Group i r) (p, xs, g))) \<longleftrightarrow>
        (\<exists>g'. (p', rest, g') \<in> set (rmatch ml u r (p, xs, g)))"
    by (auto simp: image_iff) force
  also have "\<dots> \<longleftrightarrow> (\<exists>ys. xs = ys @ rest \<and> lang ml u (Group i r) p ys \<and> p' = adv p ys)"
    by (simp only: Group.IH lang.simps)
  finally show ?case .
qed


lemma first_match_None: "first_match ms = None \<longleftrightarrow> ms = []"
  by (cases ms) (simp_all add: first_match_def)

lemma nonempty_triple: "ms \<noteq> [] \<longleftrightarrow> (\<exists>a b c. (a, b, c) \<in> set ms)"
proof (cases ms)
  case Nil
  then show ?thesis by simp
next
  case (Cons m ms')
  obtain a b c where "m = (a, b, c)" by (cases m)
  with Cons have "(a, b, c) \<in> set ms" by simp
  with Cons show ?thesis by blast
qed

lemma rmatch_nonempty:
  "rmatch ml u r (p, xs, g) \<noteq> [] \<longleftrightarrow> (\<exists>ys rest. xs = ys @ rest \<and> lang ml u r p ys)"
proof -
  have "rmatch ml u r (p, xs, g) \<noteq> [] \<longleftrightarrow>
        (\<exists>p' rest. \<exists>g'. (p', rest, g') \<in> set (rmatch ml u r (p, xs, g)))"
    by (rule nonempty_triple)
  also have "\<dots> \<longleftrightarrow> (\<exists>p' rest. \<exists>ys. xs = ys @ rest \<and> lang ml u r p ys \<and> p' = adv p ys)"
    by (simp only: rmatch_lang)
  also have "\<dots> \<longleftrightarrow> (\<exists>ys rest. xs = ys @ rest \<and> lang ml u r p ys)"
    by blast
  finally show ?thesis .
qed

lemma search_from_lang:
  "search_from ml u r p tx \<noteq> None \<longleftrightarrow>
     (\<exists>a ys b. tx = a @ ys @ b \<and> lang ml u r (adv p a) ys)"
proof (induction tx arbitrary: p)
  case Nil
  show ?case by (simp add: first_match_None rmatch_nonempty)
next
  case (Cons x xs)
  have here: "first_match (rmatch ml u r (p, x # xs, [])) \<noteq> None \<longleftrightarrow>
      (\<exists>ys b. x # xs = ys @ b \<and> lang ml u r p ys)"
    by (simp only: first_match_None rmatch_nonempty)
  have later: "search_from ml u r (Some x) xs \<noteq> None \<longleftrightarrow>
      (\<exists>a ys b. xs = a @ ys @ b \<and> lang ml u r (adv (Some x) a) ys)"
    by (rule Cons.IH)
  have split: "(\<exists>a ys b. x # xs = a @ ys @ b \<and> lang ml u r (adv p a) ys) \<longleftrightarrow>
      (\<exists>ys b. x # xs = ys @ b \<and> lang ml u r p ys) \<or>
      (\<exists>a ys b. xs = a @ ys @ b \<and> lang ml u r (adv (Some x) a) ys)"
  proof
    assume "\<exists>a ys b. x # xs = a @ ys @ b \<and> lang ml u r (adv p a) ys"
    then obtain a ys b where h: "x # xs = a @ ys @ b" "lang ml u r (adv p a) ys" by blast
    show "(\<exists>ys b. x # xs = ys @ b \<and> lang ml u r p ys) \<or>
      (\<exists>a ys b. xs = a @ ys @ b \<and> lang ml u r (adv (Some x) a) ys)"
    proof (cases a)
      case Nil
      with h show ?thesis by auto
    next
      case (Cons y a')
      with h have "xs = a' @ ys @ b \<and> lang ml u r (adv (Some x) a') ys" by simp
      then show ?thesis by blast
    qed
  next
    assume "(\<exists>ys b. x # xs = ys @ b \<and> lang ml u r p ys) \<or>
      (\<exists>a ys b. xs = a @ ys @ b \<and> lang ml u r (adv (Some x) a) ys)"
    then show "\<exists>a ys b. x # xs = a @ ys @ b \<and> lang ml u r (adv p a) ys"
    proof
      assume "\<exists>ys b. x # xs = ys @ b \<and> lang ml u r p ys"
      then obtain ys b where "x # xs = [] @ ys @ b \<and> lang ml u r (adv p []) ys" by auto
      then show ?thesis by blast
    next
      assume "\<exists>a ys b. xs = a @ ys @ b \<and> lang ml u r (adv (Some x) a) ys"
      then obtain a ys b where "xs = a @ ys @ b" "lang ml u r (adv (Some x) a) ys" by blast
      then have "x # xs = (x # a) @ ys @ b \<and> lang ml u r (adv p (x # a)) ys" by simp
      then show ?thesis by blast
    qed
  qed
  have "search_from ml u r p (x # xs) \<noteq> None \<longleftrightarrow>
      first_match (rmatch ml u r (p, x # xs, [])) \<noteq> None \<or> search_from ml u r (Some x) xs \<noteq> None"
    by (cases "first_match (rmatch ml u r (p, x # xs, []))") simp_all
  with here later split show ?case by simp
qed

lemma re_search_lang:
  "re_search ml u r text \<noteq> None \<longleftrightarrow>
     (\<exists>a ys b. text = a @ ys @ b \<and> lang ml u r (adv None a) ys)"
  unfolding re_search_def by (rule search_from_lang)

lemma lang_lits [simp]: "lang ml u (lits k) p ys \<longleftrightarrow> ys = k"
  by (induction k arbitrary: p ys) auto

lemma lang_number_unit:
  "lang ml u (number_unit_pattern unit) p ys \<longleftrightarrow> number_with_unit u unit ys"
proof
  assume "lang ml u (number_unit_pattern unit) p ys"
  then obtain ds frac ws where h: "ys = ds @ frac @ ws @ unit" "ds \<noteq> []"
    "list_all (cc_match u Digit) ds"
    "(\<exists>f fs. frac = f @ fs \<and> (\<exists>x. f = [x] \<and> x = 46) \<and> fs \<noteq> [] \<and> list_all (cc_match u Digit) fs) \<or> frac = []"
    "list_all (cc_match u Space) ws"
    unfolding number_unit_pattern_def by auto
  have d: "cc_match u Digit = (\<lambda>d. decimal u d \<noteq> None)" by (rule ext) simp
  have w: "cc_match u Space = whitespace u" by (rule ext) simp
  from h(4) have "frac = [] \<or> (\<exists>fs. frac = 46 # fs \<and> fs \<noteq> [] \<and> list_all (\<lambda>d. decimal u d \<noteq> None) fs)"
    unfolding d by auto
  with h(1,2,3,5) show "number_with_unit u unit ys"
    unfolding number_with_unit_def d w by blast
next
  assume "number_with_unit u unit ys"
  then obtain ds frac ws where h: "ys = ds @ frac @ ws @ unit" "ds \<noteq> []"
    "list_all (\<lambda>d. decimal u d \<noteq> None) ds"
    "frac = [] \<or> (\<exists>fs. frac = 46 # fs \<and> fs \<noteq> [] \<and> list_all (\<lambda>d. decimal u d \<noteq> None) fs)"
    "list_all (whitespace u) ws"
    unfolding number_with_unit_def by blast
  have d: "cc_match u Digit = (\<lambda>d. decimal u d \<noteq> None)" by (rule ext) simp
  have w: "cc_match u Space = whitespace u" by (rule ext) simp
  have 1: "lang ml u (Plus Digit) p ds" using h(2,3) by (simp add: d)
  have 2: "lang ml u (Opt (Group 1 (Seq (Atom (Lit 46)) (Plus Digit)))) (adv p ds) frac"
  proof -
    from h(4) show ?thesis
    proof
      assume "frac = []" then show ?thesis by simp
    next
      assume "\<exists>fs. frac = 46 # fs \<and> fs \<noteq> [] \<and> list_all (\<lambda>d. decimal u d \<noteq> None) fs"
      then obtain fs where fs: "frac = [46] @ fs" "fs \<noteq> []" "list_all (\<lambda>d. decimal u d \<noteq> None) fs"
        by auto
      then have "lang ml u (Seq (Atom (Lit 46)) (Plus Digit)) (adv p ds) ([46] @ fs)"
        unfolding lang.simps d by (intro exI conjI) (auto simp: d)
      with fs show ?thesis by simp
    qed
  qed
  have 3: "lang ml u (Seq (Star Space) (lits unit)) (adv (adv p ds) frac) (ws @ unit)"
    unfolding lang.simps using h(5) by (intro exI conjI) (auto simp: w)
  from 2 3 have 4: "lang ml u (Seq (Opt (Group 1 (Seq (Atom (Lit 46)) (Plus Digit))))
       (Seq (Star Space) (lits unit))) (adv p ds) (frac @ ws @ unit)"
    by (subst lang.simps) blast
  from 1 4 have "lang ml u (number_unit_pattern unit) p (ds @ frac @ ws @ unit)"
    unfolding number_unit_pattern_def by (subst lang.simps) blast
  with h(1) show "lang ml u (number_unit_pattern unit) p ys" by simp
qed

lemma lang_kpi:
  "lang True u (kpi_pattern k) p ys \<longleftrightarrow> (ys = k \<and> (p = None \<or> p = Some 10)) \<or> ys = 10 # k"
  unfolding kpi_pattern_def by (auto simp: at_bol_def)


lemma unit_loop_iff:
  "unit_loop u units tx =
     (if \<exists>unit\<in>set units. \<exists>a s b. tx = a @ s @ b \<and> number_with_unit u unit s
      then Some 1 else None)"
proof (induction units)
  case Nil
  show ?case by simp
next
  case (Cons unit units)
  have "re_search False u (number_unit_pattern unit) tx \<noteq> None \<longleftrightarrow>
        (\<exists>a s b. tx = a @ s @ b \<and> number_with_unit u unit s)"
    by (simp only: re_search_lang lang_number_unit)
  with Cons.IH show ?case by (simp add: Let_def)
qed

lemma adv_None_bol: "(adv None a = None \<or> adv None a = Some 10) \<longleftrightarrow> (a = [] \<or> (\<exists>a'. a = a' @ [10]))"
proof (cases a rule: rev_cases)
  case Nil
  then show ?thesis by simp
next
  case (snoc a' x)
  then show ?thesis by (simp add: adv_def)
qed

lemma kpi_search_iff:
  "re_search True u (kpi_pattern k) tx \<noteq> None \<longleftrightarrow>
     (\<exists>b. tx = k @ b) \<or> (\<exists>a b. tx = a @ 10 # k @ b)"
proof -
  have "re_search True u (kpi_pattern k) tx \<noteq> None \<longleftrightarrow>
      (\<exists>a ys b. tx = a @ ys @ b \<and>
         ((ys = k \<and> (adv None a = None \<or> adv None a = Some 10)) \<or> ys = 10 # k))"
    by (simp only: re_search_lang lang_kpi)
  also have "\<dots> \<longleftrightarrow> (\<exists>a ys b. tx = a @ ys @ b \<and>
         ((ys = k \<and> (a = [] \<or> (\<exists>a'. a = a' @ [10]))) \<or> ys = 10 # k))"
    by (simp only: adv_None_bol)
  also have "\<dots> \<longleftrightarrow> (\<exists>b. tx = k @ b) \<or> (\<exists>a b. tx = a @ 10 # k @ b)"
  proof
    assume "\<exists>a ys b. tx = a @ ys @ b \<and>
         ((ys = k \<and> (a = [] \<or> (\<exists>a'. a = a' @ [10]))) \<or> ys = 10 # k)"
    then obtain a ys b where h: "tx = a @ ys @ b"
      "(ys = k \<and> (a = [] \<or> (\<exists>a'. a = a' @ [10]))) \<or> ys = 10 # k" by blast
    from h(2) consider "ys = k" "a = []" | a' where "ys = k" "a = a' @ [10]" | "ys = 10 # k"
      by blast
    then show "(\<exists>b. tx = k @ b) \<or> (\<exists>a b. tx = a @ 10 # k @ b)"
    proof cases
      case 1
      with h(1) show ?thesis by simp
    next
      case 2
      with h(1) have "tx = a' @ 10 # k @ b" by simp
      then show ?thesis by blast
    next
      case 3
      with h(1) have "tx = a @ 10 # k @ b" by simp
      then show ?thesis by blast
    qed
  next
    assume "(\<exists>b. tx = k @ b) \<or> (\<exists>a b. tx = a @ 10 # k @ b)"
    then show "\<exists>a ys b. tx = a @ ys @ b \<and>
         ((ys = k \<and> (a = [] \<or> (\<exists>a'. a = a' @ [10]))) \<or> ys = 10 # k)"
    proof
      assume "\<exists>b. tx = k @ b"
      then obtain b where "tx = [] @ k @ b" by auto
      then show ?thesis by blast
    next
      assume "\<exists>a b. tx = a @ 10 # k @ b"
      then obtain a b where "tx = a @ (10 # k) @ b" by auto
      then show ?thesis by blast
    qed
  qed
  finally show ?thesis .
qed

lemma kpi_loop_iff:
  "kpi_loop u ks tx =
     (if \<exists>k\<in>set ks. (\<exists>b. tx = k @ b) \<or> (\<exists>a b. tx = a @ 10 # k @ b) then Some 1 else None)"
proof (induction ks)
  case Nil
  show ?case by simp
next
  case (Cons k ks)
  have "re_search True u (kpi_pattern k) tx \<noteq> None \<longleftrightarrow>
     (\<exists>b. tx = k @ b) \<or> (\<exists>a b. tx = a @ 10 # k @ b)"
    by (rule kpi_search_iff)
  with Cons.IH show ?case by (simp add: Let_def)
qed

lemma check_quantitative_metrics_iff:
  "check_quantitative_metrics u tx =
     (if has_number_unit u tx \<or> kpi_at_line_start tx then 1 else 0)"
  unfolding check_quantitative_metrics_def has_number_unit_def kpi_at_line_start_def
  by (simp add: unit_loop_iff kpi_loop_iff)

section \<open>The quantitative-metrics check\<close>

lemmas run_metrics =
  check_quantitative_metrics_def quantitative_units_def kpi_keywords_def ascii_def
  re_search_def number_unit_pattern_def kpi_pattern_def first_match_def basic_latin_def
  at_bol_def

text \<open>
  Claim C3.  \<open>check_quantitative_metrics\<close> returns 1 for every text that contains, for
  some unit of the unit list, a non-empty run of digits, optionally a decimal point and
  a non-empty run of digits, then any (possibly empty) white space, then the unit itself,
  code point for code point.  The text U+6392 U+653E U+91CF \<^verbatim>\<open>120\<close> U+5428 of the
  specification scores 1.
\<close>

theorem number_unit_scores:
  "(\<forall>unit\<in>set quantitative_units. \<forall>a s b.
      number_with_unit u unit s \<longrightarrow> check_quantitative_metrics u (a @ s @ b) = 1) \<and>
   check_quantitative_metrics basic_latin
     ([0x6392, 0x653E, 0x91CF] @ ascii ''120'' @ [0x5428]) = 1"
proof
  show "\<forall>unit\<in>set quantitative_units. \<forall>a s b.
      number_with_unit u unit s \<longrightarrow> check_quantitative_metrics u (a @ s @ b) = 1"
  proof (intro ballI allI impI)
    fix unit a s b
    assume "unit \<in> set quantitative_units" "number_with_unit u unit s"
    then have "has_number_unit u (a @ s @ b)"
      unfolding has_number_unit_def by blast
    then show "check_quantitative_metrics u (a @ s @ b) = 1"
      by (simp add: check_quantitative_metrics_iff)
  qed
  show "check_quantitative_metrics basic_latin
     ([0x6392, 0x653E, 0x91CF] @ ascii ''120'' @ [0x5428]) = 1"
    by (simp add: run_metrics)
qed

theorem number_unit_scores_witness:
  "ascii ''%'' \<in> set quantitative_units \<and>
   number_with_unit basic_latin (ascii ''%'') (ascii ''3.5 %'') \<and>
   check_quantitative_metrics basic_latin (ascii ''up '' @ ascii ''3.5 %'' @ ascii '' on 2020'') = 1"
proof -
  have m: "ascii ''%'' \<in> set quantitative_units"
    by (simp add: quantitative_units_def)
  have "ascii ''3.5 %'' = ascii ''3'' @ ascii ''.5'' @ ascii '' '' @ ascii ''%'' \<and>
      ascii ''3'' \<noteq> [] \<and> list_all (\<lambda>d. decimal basic_latin d \<noteq> None) (ascii ''3'') \<and>
      (ascii ''.5'' = [] \<or> (\<exists>fs. ascii ''.5'' = 46 # fs \<and> fs \<noteq> [] \<and>
         list_all (\<lambda>d. decimal basic_latin d \<noteq> None) fs)) \<and>
      list_all (whitespace basic_latin) (ascii '' '')"
    by (simp add: ascii_def basic_latin_def)
  then have n: "number_with_unit basic_latin (ascii ''%'') (ascii ''3.5 %'')"
    unfolding number_with_unit_def by blast
  from number_unit_scores [of basic_latin] m n
  have "check_quantitative_metrics basic_latin (ascii ''up '' @ ascii ''3.5 %'' @ ascii '' on 2020'') = 1"
    by blast
  with m n show ?thesis by blast
qed

text \<open>
  Claim C4.  \<open>check_quantitative_metrics\<close> returns 1 for every text in which a KPI
  phrase opens the text or follows a line feed, and 0 for every text with no number
  and unit and no KPI phrase in such a position, so that a phrase in the middle of a
  line does not count.  \<^verbatim>\<open>KPI\<close>, line feed, U+6838 U+5FC3 U+6307 U+6807 scores 1
  with no number in it; \<^verbatim>\<open>our KPI table\<close> and \<^verbatim>\<open>no numbers or keywords here\<close>
  score 0.
\<close>

theorem kpi_heading_scores:
  "(kpi_at_line_start tx \<longrightarrow> check_quantitative_metrics u tx = 1) \<and>
   (\<not> has_number_unit u tx \<and> \<not> kpi_at_line_start tx \<longrightarrow> check_quantitative_metrics u tx = 0) \<and>
   check_quantitative_metrics basic_latin (ascii ''KPI'' @ [10] @ [0x6838, 0x5FC3, 0x6307, 0x6807]) = 1 \<and>
   check_quantitative_metrics basic_latin (ascii ''our KPI table'') = 0 \<and>
   check_quantitative_metrics basic_latin (ascii ''no numbers or keywords here'') = 0"
proof (intro conjI)
  show "kpi_at_line_start tx \<longrightarrow> check_quantitative_metrics u tx = 1"
    by (simp add: check_quantitative_metrics_iff)
  show "\<not> has_number_unit u tx \<and> \<not> kpi_at_line_start tx \<longrightarrow> check_quantitative_metrics u tx = 0"
    by (simp add: check_quantitative_metrics_iff)
  show "check_quantitative_metrics basic_latin (ascii ''KPI'' @ [10] @ [0x6838, 0x5FC3, 0x6307, 0x6807]) = 1"
    by (simp add: run_metrics)
  show "check_quantitative_metrics basic_latin (ascii ''our KPI table'') = 0"
    by (simp add: run_metrics)
  show "check_quantitative_metrics basic_latin (ascii ''no numbers or keywords here'') = 0"
    by (simp add: run_metrics)
qed

theorem kpi_heading_scores_witness:
  "kpi_at_line_start (ascii ''Annex'' @ 10 # ascii ''KPI'' @ ascii '' table'') \<and>
   check_quantitative_metrics basic_latin (ascii ''Annex'' @ 10 # ascii ''KPI'' @ ascii '' table'') = 1 \<and>
   \<not> has_number_unit basic_latin (ascii ''see the KPI table'') \<and>
   \<not> kpi_at_line_start (ascii ''see the KPI table'') \<and>
   check_quantitative_metrics basic_latin (ascii ''see the KPI table'') = 0"
proof -
  have "ascii ''KPI'' \<in> set kpi_keywords" by (simp add: kpi_keywords_def)
  then have k: "kpi_at_line_start (ascii ''Annex'' @ 10 # ascii ''KPI'' @ ascii '' table'')"
    unfolding kpi_at_line_start_def by blast
  have "check_quantitative_metrics basic_latin (ascii ''see the KPI table'') = 0"
    by (simp add: run_metrics)
  then have n: "\<not> has_number_unit basic_latin (ascii ''see the KPI table'') \<and>
      \<not> kpi_at_line_start (ascii ''see the KPI table'')"
    by (simp add: check_quantitative_metrics_iff split: if_splits)
  from k kpi_heading_scores [of "ascii ''Annex'' @ 10 # ascii ''KPI'' @ ascii '' table''" basic_latin]
  have 1: "check_quantitative_metrics basic_latin (ascii ''Annex'' @ 10 # ascii ''KPI'' @ ascii '' table'') = 1"
    by blast
  from n kpi_heading_scores [of "ascii ''see the KPI table''" basic_latin]
  have 0: "check_quantitative_metrics basic_latin (ascii ''see the KPI table'') = 0"
    by blast
  from k 1 n 0 show ?thesis by blast
qed

section \<open>Scoring one report\<close>

lemma check_standards_range: "check_standards_compliance u tx \<in> {0, 1}"
  unfolding check_standards_compliance_def Let_def by (rule keyword_loop_range)

lemma check_assurance_range: "check_third_party_assurance u tx \<in> {0, 1}"
  unfolding check_third_party_assurance_def Let_def by (rule keyword_loop_range)

lemma check_metrics_range: "check_quantitative_metrics u tx \<in> {0, 1}"
  by (simp add: check_quantitative_metrics_iff)

lemma analyze_report_Some:
  "fs path = Some tx \<Longrightarrow> tx \<noteq> [] \<Longrightarrow>
   analyze_report u fs path =
     Some \<lparr> standards_score = check_standards_compliance u tx,
            assurance_score = check_third_party_assurance u tx,
            metrics_score = check_quantitative_metrics u tx,
            total_score = check_standards_compliance u tx + check_third_party_assurance u tx +
              check_quantitative_metrics u tx \<rparr>"
  by (simp add: analyze_report_def extract_text_from_txt_def Let_def)

lemma analyze_report_None:
  "fs path = None \<or> fs path = Some [] \<Longrightarrow> analyze_report u fs path = None"
  by (auto simp: analyze_report_def extract_text_from_txt_def Let_def)

text \<open>
  Claim C2.  \<open>analyze_report\<close> on an empty text (a file that is empty, or that cannot
  be read) returns \<open>None\<close>; the model has no exceptional result for it, the only
  raising step being caught inside \<open>extract_text_from_txt\<close>.  On a non-empty text it
  returns the values of the three checks on that text and their sum.  An empty document
  gives \<open>None\<close> where a document without any match gives four zeros.
\<close>

theorem analyze_report_absent:
  "(fs path = None \<or> fs path = Some [] \<longrightarrow> analyze_report u fs path = None) \<and>
   (\<forall>tx. fs path = Some tx \<and> tx \<noteq> [] \<longrightarrow>
      analyze_report u fs path =
        Some \<lparr> standards_score = check_standards_compliance u tx,
               assurance_score = check_third_party_assurance u tx,
               metrics_score = check_quantitative_metrics u tx,
               total_score = check_standards_compliance u tx + check_third_party_assurance u tx +
                 check_quantitative_metrics u tx \<rparr>) \<and>
   analyze_report basic_latin [ascii ''a.txt'' \<mapsto> []] (ascii ''a.txt'') = None \<and>
   analyze_report basic_latin [ascii ''a.txt'' \<mapsto> ascii ''annual report''] (ascii ''a.txt'') =
     Some \<lparr> standards_score = 0, assurance_score = 0, metrics_score = 0, total_score = 0 \<rparr>"
proof (intro conjI)
  show "fs path = None \<or> fs path = Some [] \<longrightarrow> analyze_report u fs path = None"
    using analyze_report_None by blast
  show "\<forall>tx. fs path = Some tx \<and> tx \<noteq> [] \<longrightarrow>
      analyze_report u fs path =
        Some \<lparr> standards_score = check_standards_compliance u tx,
               assurance_score = check_third_party_assurance u tx,
               metrics_score = check_quantitative_metrics u tx,
               total_score = check_standards_compliance u tx + check_third_party_assurance u tx +
                 check_quantitative_metrics u tx \<rparr>"
    using analyze_report_Some by blast
  show "analyze_report basic_latin [ascii ''a.txt'' \<mapsto> []] (ascii ''a.txt'') = None"
    by (simp add: analyze_report_None)
  have s: "check_standards_compliance basic_latin (ascii ''annual report'') = 0"
    by (simp add: run_keywords)
  have a: "check_third_party_assurance basic_latin (ascii ''annual report'') = 0"
    by (simp add: run_keywords)
  have m: "check_quantitative_metrics basic_latin (ascii ''annual report'') = 0"
    by (simp add: run_metrics)
  have ne: "ascii ''annual report'' \<noteq> []" by (simp add: ascii_def)
  have f: "[ascii ''a.txt'' \<mapsto> ascii ''annual report''] (ascii ''a.txt'') = Some (ascii ''annual report'')"
    by simp
  from analyze_report_Some [of "[ascii ''a.txt'' \<mapsto> ascii ''annual report'']" "ascii ''a.txt''"
      "ascii ''annual report''" basic_latin] f ne
  show "analyze_report basic_latin [ascii ''a.txt'' \<mapsto> ascii ''annual report''] (ascii ''a.txt'') =
     Some \<lparr> standards_score = 0, assurance_score = 0, metrics_score = 0, total_score = 0 \<rparr>"
    by (simp add: s a m)
qed

theorem analyze_report_absent_witness:
  "(Map.empty :: filesystem) (ascii ''gone.txt'') = None \<and>
   analyze_report basic_latin Map.empty (ascii ''gone.txt'') = None \<and>
   [ascii ''r.txt'' \<mapsto> ascii ''GRI''] (ascii ''r.txt'') = Some (ascii ''GRI'') \<and>
   ascii ''GRI'' \<noteq> [] \<and>
   analyze_report basic_latin [ascii ''r.txt'' \<mapsto> ascii ''GRI''] (ascii ''r.txt'') =
     Some \<lparr> standards_score = 1, assurance_score = 0, metrics_score = 0, total_score = 1 \<rparr>"
proof -
  have 1: "analyze_report basic_latin Map.empty (ascii ''gone.txt'') = None"
    using analyze_report_absent [of Map.empty "ascii ''gone.txt''" basic_latin] by simp
  have f: "[ascii ''r.txt'' \<mapsto> ascii ''GRI''] (ascii ''r.txt'') = Some (ascii ''GRI'')" by simp
  have ne: "ascii ''GRI'' \<noteq> []" by (simp add: ascii_def)
  have s: "check_standards_compliance basic_latin (ascii ''GRI'') = 1"
    by (simp add: run_keywords)
  have a: "check_third_party_assurance basic_latin (ascii ''GRI'') = 0"
    by (simp add: run_keywords)
  have m: "check_quantitative_metrics basic_latin (ascii ''GRI'') = 0"
    by (simp add: run_metrics)
  from analyze_report_absent [of "[ascii ''r.txt'' \<mapsto> ascii ''GRI'']" "ascii ''r.txt''" basic_latin] f ne
  have "analyze_report basic_latin [ascii ''r.txt'' \<mapsto> ascii ''GRI''] (ascii ''r.txt'') =
     Some \<lparr> standards_score = check_standards_compliance basic_latin (ascii ''GRI''),
            assurance_score = check_third_party_assurance basic_latin (ascii ''GRI''),
            metrics_score = check_quantitative_metrics basic_latin (ascii ''GRI''),
            total_score = check_standards_compliance basic_latin (ascii ''GRI'') +
              check_third_party_assurance basic_latin (ascii ''GRI'') +
              check_quantitative_metrics basic_latin (ascii ''GRI'') \<rparr>"
    by blast
  with s a m have 2: "analyze_report basic_latin [ascii ''r.txt'' \<mapsto> ascii ''GRI''] (ascii ''r.txt'') =
     Some \<lparr> standards_score = 1, assurance_score = 0, metrics_score = 0, total_score = 1 \<rparr>"
    by simp
  from 1 f ne 2 show ?thesis by simp
qed

text \<open>
  Claim C5.  For every non-empty text \<open>analyze_report\<close> returns a result whose total is
  the sum of its three scores, each of them 0 or 1, so that the total is 0, 1, 2 or 3.
\<close>

theorem total_score_sum:
  "fs path = Some tx \<and> tx \<noteq> [] \<longrightarrow>
     (\<exists>r. analyze_report u fs path = Some r \<and>
        total_score r = standards_score r + assurance_score r + metrics_score r \<and>
        standards_score r \<in> {0, 1} \<and> assurance_score r \<in> {0, 1} \<and>
        metrics_score r \<in> {0, 1} \<and> total_score r \<in> {0, 1, 2, 3})"
proof
  assume h: "fs path = Some tx \<and> tx \<noteq> []"
  let ?s = "check_standards_compliance u tx"
  let ?a = "check_third_party_assurance u tx"
  let ?m = "check_quantitative_metrics u tx"
  let ?r = "\<lparr> standards_score = ?s, assurance_score = ?a, metrics_score = ?m,
             total_score = ?s + ?a + ?m \<rparr>"
  from h have r: "analyze_report u fs path = Some ?r" by (simp add: analyze_report_Some)
  have s: "?s \<in> {0, 1}" by (rule check_standards_range)
  have a: "?a \<in> {0, 1}" by (rule check_assurance_range)
  have m: "?m \<in> {0, 1}" by (rule check_metrics_range)
  from s a m have t: "?s + ?a + ?m \<in> {0, 1, 2, 3}" by auto
  from r s a m t have "analyze_report u fs path = Some ?r \<and>
        total_score ?r = standards_score ?r + assurance_score ?r + metrics_score ?r \<and>
        standards_score ?r \<in> {0, 1} \<and> assurance_score ?r \<in> {0, 1} \<and>
        metrics_score ?r \<in> {0, 1} \<and> total_score ?r \<in> {0, 1, 2, 3}"
    by simp
  then show "\<exists>r. analyze_report u fs path = Some r \<and>
        total_score r = standards_score r + assurance_score r + metrics_score r \<and>
        standards_score r \<in> {0, 1} \<and> assurance_score r \<in> {0, 1} \<and>
        metrics_score r \<in> {0, 1} \<and> total_score r \<in> {0, 1, 2, 3}"
    by (rule exI)
qed

theorem total_score_sum_witness:
  "[ascii ''r.txt'' \<mapsto> ascii ''SASB; assurance; 12 %''] (ascii ''r.txt'') =
     Some (ascii ''SASB; assurance; 12 %'') \<and>
   ascii ''SASB; assurance; 12 %'' \<noteq> [] \<and>
   (\<exists>r. analyze_report basic_latin [ascii ''r.txt'' \<mapsto> ascii ''SASB; assurance; 12 %'']
          (ascii ''r.txt'') = Some r \<and>
        total_score r = standards_score r + assurance_score r + metrics_score r \<and>
        standards_score r \<in> {0, 1} \<and> assurance_score r \<in> {0, 1} \<and>
        metrics_score r \<in> {0, 1} \<and> total_score r \<in> {0, 1, 2, 3})"
proof -
  have f: "[ascii ''r.txt'' \<mapsto> ascii ''SASB; assurance; 12 %''] (ascii ''r.txt'') =
     Some (ascii ''SASB; assurance; 12 %'')" by simp
  have ne: "ascii ''SASB; assurance; 12 %'' \<noteq> []" by (simp add: ascii_def)
  from f ne total_score_sum [of "[ascii ''r.txt'' \<mapsto> ascii ''SASB; assurance; 12 %'']"
      "ascii ''r.txt''" "ascii ''SASB; assurance; 12 %''" basic_latin]
  show ?thesis by blast
qed

text \<open>
  Claim C9.  Rule 2 compares the KPI phrase with the text as it stands, without
  lowering either.  Every KPI phrase that changes under lowering (\<^verbatim>\<open>KPI\<close> and the
  one that starts with \<^verbatim>\<open>ESG\<close>) scores 1 as a text of its own and 0 once lowered, at
  the start of the text as after a line feed, while the two keyword checks accept
  \<^verbatim>\<open>gri\<close> and \<^verbatim>\<open>ASSURANCE\<close>.
\<close>

theorem kpi_rule_case_sensitive:
  "(\<forall>k\<in>set kpi_keywords. to_lower basic_latin k \<noteq> k \<longrightarrow>
      check_quantitative_metrics basic_latin (to_lower basic_latin k) = 0 \<and>
      check_quantitative_metrics basic_latin k = 1) \<and>
   check_quantitative_metrics basic_latin (ascii ''kpi'') = 0 \<and>
   check_quantitative_metrics basic_latin (ascii ''KPI'') = 1 \<and>
   check_quantitative_metrics basic_latin (ascii ''Annex'' @ [10] @ ascii ''kpi'') = 0 \<and>
   check_quantitative_metrics basic_latin (ascii ''Annex'' @ [10] @ ascii ''KPI'') = 1 \<and>
   check_standards_compliance basic_latin (ascii ''gri'') = 1 \<and>
   check_third_party_assurance basic_latin (ascii ''ASSURANCE'') = 1"
proof (intro conjI)
  show "\<forall>k\<in>set kpi_keywords. to_lower basic_latin k \<noteq> k \<longrightarrow>
      check_quantitative_metrics basic_latin (to_lower basic_latin k) = 0 \<and>
      check_quantitative_metrics basic_latin k = 1"
    unfolding kpi_keywords_def by (simp add: run_metrics)
  show "check_quantitative_metrics basic_latin (ascii ''kpi'') = 0"
    by (simp add: run_metrics)
  show "check_quantitative_metrics basic_latin (ascii ''KPI'') = 1"
    by (simp add: run_metrics)
  show "check_quantitative_metrics basic_latin (ascii ''Annex'' @ [10] @ ascii ''kpi'') = 0"
    by (simp add: run_metrics)
  show "check_quantitative_metrics basic_latin (ascii ''Annex'' @ [10] @ ascii ''KPI'') = 1"
    by (simp add: run_metrics)
  show "check_standards_compliance basic_latin (ascii ''gri'') = 1"
    by (simp add: run_keywords)
  show "check_third_party_assurance basic_latin (ascii ''ASSURANCE'') = 1"
    by (simp add: run_keywords)
qed

theorem kpi_rule_case_sensitive_witness:
  "[69, 83, 71, 32, 0x6570, 0x636E] \<in> set kpi_keywords \<and>
   to_lower basic_latin [69, 83, 71, 32, 0x6570, 0x636E] = [101, 115, 103, 32, 0x6570, 0x636E] \<and>
   check_quantitative_metrics basic_latin [101, 115, 103, 32, 0x6570, 0x636E] = 0 \<and>
   check_quantitative_metrics basic_latin [69, 83, 71, 32, 0x6570, 0x636E] = 1"
proof -
  have k: "[69, 83, 71, 32, 0x6570, 0x636E] \<in> set kpi_keywords"
    by (simp add: kpi_keywords_def)
  have l: "to_lower basic_latin [69, 83, 71, 32, 0x6570, 0x636E] = [101, 115, 103, 32, 0x6570, 0x636E]"
    by (simp add: basic_latin_def)
  then have ne: "to_lower basic_latin [69, 83, 71, 32, 0x6570, 0x636E] \<noteq> [69, 83, 71, 32, 0x6570, 0x636E]"
    by simp
  from kpi_rule_case_sensitive k ne
  have "check_quantitative_metrics basic_latin (to_lower basic_latin [69, 83, 71, 32, 0x6570, 0x636E]) = 0 \<and>
      check_quantitative_metrics basic_latin [69, 83, 71, 32, 0x6570, 0x636E] = 1"
    by blast
  with k l show ?thesis by simp
qed

section \<open>Monotonicity\<close>

lemma has_number_unit_append: "has_number_unit u tx \<Longrightarrow> has_number_unit u (tx @ s)"
proof -
  assume "has_number_unit u tx"
  then obtain unit a n b where h: "unit \<in> set quantitative_units" "tx = a @ n @ b"
    "number_with_unit u unit n"
    unfolding has_number_unit_def by blast
  then have "tx @ s = a @ n @ (b @ s)" by simp
  with h show ?thesis unfolding has_number_unit_def by blast
qed

lemma kpi_at_line_start_append: "kpi_at_line_start tx \<Longrightarrow> kpi_at_line_start (tx @ s)"
proof -
  assume "kpi_at_line_start tx"
  then obtain k where k: "k \<in> set kpi_keywords"
    and h: "(\<exists>b. tx = k @ b) \<or> (\<exists>a b. tx = a @ 10 # k @ b)"
    unfolding kpi_at_line_start_def by blast
  from h have "(\<exists>b. tx @ s = k @ b) \<or> (\<exists>a b. tx @ s = a @ 10 # k @ b)"
  proof
    assume "\<exists>b. tx = k @ b"
    then obtain b where "tx @ s = k @ (b @ s)" by auto
    then show ?thesis by blast
  next
    assume "\<exists>a b. tx = a @ 10 # k @ b"
    then obtain a b where "tx @ s = a @ 10 # k @ (b @ s)" by auto
    then show ?thesis by blast
  qed
  with k show ?thesis unfolding kpi_at_line_start_def by blast
qed

lemma check_metrics_append:
  "check_quantitative_metrics u tx \<le> check_quantitative_metrics u (tx @ s)"
  using has_number_unit_append [of u tx s] kpi_at_line_start_append [of tx s]
  by (auto simp: check_quantitative_metrics_iff)

lemma keyword_loop_extend:
  assumes "lowered' = lowered @ c"
  shows "keyword_loop u ks lowered \<le> keyword_loop u ks lowered'"
proof -
  have "str_contains k lowered \<Longrightarrow> str_contains k lowered'" for k
  proof -
    assume "str_contains k lowered"
    then obtain a b where "lowered = a @ k @ b" unfolding str_contains_iff by blast
    with assms have "lowered' = a @ k @ (b @ c)" by simp
    then show "str_contains k lowered'" unfolding str_contains_iff by blast
  qed
  then show ?thesis by (auto simp: keyword_loop_iff)
qed

text \<open>
  Claim C8, as amended.  No check returns a value other than 0 or 1.  Text added at the
  end of a document, such as an occurrence of a keyword or of a pattern, never lowers
  the metrics score, and never lowers the standards or the assurance score when the
  lowered form of the longer text starts with the lowered form of the old one.  Nothing
  is said of text added in front of the document or inside it.
\<close>

theorem scores_monotone_append:
  "check_standards_compliance u tx \<in> {0, 1} \<and>
   check_third_party_assurance u tx \<in> {0, 1} \<and>
   check_quantitative_metrics u tx \<in> {0, 1} \<and>
   check_quantitative_metrics u tx \<le> check_quantitative_metrics u (tx @ s) \<and>
   ((\<exists>c. to_lower u (tx @ s) = to_lower u tx @ c) \<longrightarrow>
      check_standards_compliance u tx \<le> check_standards_compliance u (tx @ s) \<and>
      check_third_party_assurance u tx \<le> check_third_party_assurance u (tx @ s))"
proof (intro conjI impI)
  show "check_standards_compliance u tx \<in> {0, 1}" by (rule check_standards_range)
  show "check_third_party_assurance u tx \<in> {0, 1}" by (rule check_assurance_range)
  show "check_quantitative_metrics u tx \<in> {0, 1}" by (rule check_metrics_range)
  show "check_quantitative_metrics u tx \<le> check_quantitative_metrics u (tx @ s)"
    by (rule check_metrics_append)
next
  assume "\<exists>c. to_lower u (tx @ s) = to_lower u tx @ c"
  then obtain c where c: "to_lower u (tx @ s) = to_lower u tx @ c" by blast
  then show "check_standards_compliance u tx \<le> check_standards_compliance u (tx @ s)"
    unfolding check_standards_compliance_def Let_def by (rule keyword_loop_extend)
next
  assume "\<exists>c. to_lower u (tx @ s) = to_lower u tx @ c"
  then obtain c where c: "to_lower u (tx @ s) = to_lower u tx @ c" by blast
  then show "check_third_party_assurance u tx \<le> check_third_party_assurance u (tx @ s)"
    unfolding check_third_party_assurance_def Let_def by (rule keyword_loop_extend)
qed

theorem scores_monotone_append_witness:
  "(\<exists>c. to_lower basic_latin (ascii ''KPI'' @ ascii '' GRI'') = to_lower basic_latin (ascii ''KPI'') @ c) \<and>
   check_quantitative_metrics basic_latin (ascii ''KPI'') = 1 \<and>
   check_quantitative_metrics basic_latin (ascii ''KPI'' @ ascii '' GRI'') = 1 \<and>
   check_standards_compliance basic_latin (ascii ''KPI'') \<le>
     check_standards_compliance basic_latin (ascii ''KPI'' @ ascii '' GRI'')"
proof -
  have l: "\<exists>c. to_lower basic_latin (ascii ''KPI'' @ ascii '' GRI'') = to_lower basic_latin (ascii ''KPI'') @ c"
    by (simp add: basic_latin_def)
  have m: "check_quantitative_metrics basic_latin (ascii ''KPI'') = 1"
    by (simp add: run_metrics)
  from scores_monotone_append [of basic_latin "ascii ''KPI''" "ascii '' GRI''"] l
  have a: "check_quantitative_metrics basic_latin (ascii ''KPI'' @ ascii '' GRI'') \<in> {0, 1} \<and>
      check_quantitative_metrics basic_latin (ascii ''KPI'') \<le>
        check_quantitative_metrics basic_latin (ascii ''KPI'' @ ascii '' GRI'') \<and>
      check_standards_compliance basic_latin (ascii ''KPI'') \<le>
        check_standards_compliance basic_latin (ascii ''KPI'' @ ascii '' GRI'')"
    using scores_monotone_append [of basic_latin "ascii ''KPI'' @ ascii '' GRI''" "[]"] by blast
  with m have "check_quantitative_metrics basic_latin (ascii ''KPI'' @ ascii '' GRI'') = 1"
    by auto
  with l m a show ?thesis by blast
qed

text \<open>
  The claim as stated fails for text added elsewhere.  The standards keyword \<^verbatim>\<open>GRI\<close>
  put in front of the text \<^verbatim>\<open>KPI\<close> moves the KPI phrase away from the start of the
  line and the metrics score falls from 1 to 0; the number with unit \<^verbatim>\<open>12%\<close> put
  inside the text \<^verbatim>\<open>GRI\<close> breaks the keyword and the standards score falls from 1
  to 0.
\<close>

theorem scores_monotone_counterexample:
  "ascii ''GRI'' \<in> set standards_keywords \<and>
   check_quantitative_metrics basic_latin (ascii ''KPI'') = 1 \<and>
   check_quantitative_metrics basic_latin (ascii ''GRI'' @ ascii ''KPI'') = 0 \<and>
   ascii ''%'' \<in> set quantitative_units \<and>
   check_standards_compliance basic_latin (ascii ''GRI'') = 1 \<and>
   check_standards_compliance basic_latin (ascii ''G'' @ ascii ''12%'' @ ascii ''RI'') = 0"
proof (intro conjI)
  show "ascii ''GRI'' \<in> set standards_keywords" by (simp add: standards_keywords_def)
  show "check_quantitative_metrics basic_latin (ascii ''KPI'') = 1" by (simp add: run_metrics)
  show "check_quantitative_metrics basic_latin (ascii ''GRI'' @ ascii ''KPI'') = 0"
    by (simp add: run_metrics)
  show "ascii ''%'' \<in> set quantitative_units" by (simp add: quantitative_units_def)
  show "check_standards_compliance basic_latin (ascii ''GRI'') = 1" by (simp add: run_keywords)
  show "check_standards_compliance basic_latin (ascii ''G'' @ ascii ''12%'' @ ascii ''RI'') = 0"
    by (simp add: run_keywords)
qed

section \<open>File names\<close>

lemma times_run_eq:
  "times_run P n (p, xs, g) =
     (if n \<le> length xs \<and> list_all P (take n xs) then [(adv p (take n xs), drop n xs, g)] else [])"
proof (induction n arbitrary: p xs)
  case 0
  show ?case by simp
next
  case (Suc n)
  show ?case
  proof (cases xs)
    case Nil
    then show ?thesis by simp
  next
    case (Cons x xs')
    with Suc.IH [of "Some x" xs'] show ?thesis by simp
  qed
qed

lemma rmatch_lit:
  "rmatch ml u (Atom (Lit c)) (p, xs, g) =
     (case xs of [] \<Rightarrow> [] | x # xs' \<Rightarrow> if x = c then [(Some c, xs', g)] else [])"
  by (cases xs) auto

lemma rmatch_lits:
  "rmatch ml u (lits k) (p, xs, g) =
     (if prefix k xs then [(adv p k, drop (length k) xs, g)] else [])"
proof (induction k arbitrary: p xs)
  case Nil
  show ?case by simp
next
  case (Cons c k)
  show ?case
  proof (cases xs)
    case Nil
    then show ?thesis by simp
  next
    case (Cons x xs')
    with Cons.IH [of "Some c" xs'] show ?thesis by (auto simp: rmatch_lit)
  qed
qed

lemma lazy_run_prefixes:
  "lazy_run P (p, xs, g) =
     map (\<lambda>n. (adv p n, drop (length n) xs, g)) (prefixes (takeWhile P xs))"
proof (induction xs arbitrary: p)
  case Nil
  show ?case by simp
next
  case (Cons x xs)
  then show ?case by (simp add: comp_def)
qed

lemma first_match_concat:
  "first_match (concat (map (\<lambda>n. if Q n then [f n] else []) ns)) = map_option f (find Q ns)"
  by (induction ns) (simp_all add: first_match_def)

lemma find_map_Cons:
  "find Q (map ((#) y) ps) = map_option ((#) y) (find (\<lambda>m. Q (y # m)) ps)"
  by (induction ps) simp_all

lemma find_prefixes:
  "find Q (prefixes ys) = Some n \<longleftrightarrow>
     prefix n ys \<and> Q n \<and> (\<forall>m. prefix m ys \<and> Q m \<longrightarrow> length n \<le> length m)"
proof (induction ys arbitrary: Q n)
  case Nil
  show ?case by auto
next
  case (Cons y ys)
  show ?case
  proof (cases "Q []")
    case True
    have "n = []" if "\<forall>m. prefix m (y # ys) \<and> Q m \<longrightarrow> length n \<le> length m"
    proof -
      from that True have "length n \<le> length ([] :: ustr)" by (metis Nil_prefix list.size(3))
      then show ?thesis by simp
    qed
    with True show ?thesis by auto
  next
    case False
    have f: "find Q (map ((#) y) (prefixes ys)) = map_option ((#) y) (find (\<lambda>m. Q (y # m)) (prefixes ys))"
      by (rule find_map_Cons)
    show ?thesis
    proof (cases n)
      case Nil
      with False f show ?thesis by auto
    next
      case (Cons z n')
      have "find Q (prefixes (y # ys)) = Some (z # n') \<longleftrightarrow>
            z = y \<and> find (\<lambda>m. Q (y # m)) (prefixes ys) = Some n'"
        using False f by auto
      also have "\<dots> \<longleftrightarrow> z = y \<and> prefix n' ys \<and> Q (y # n') \<and>
            (\<forall>m. prefix m ys \<and> Q (y # m) \<longrightarrow> length n' \<le> length m)"
        by (simp only: Cons.IH)
      also have "\<dots> \<longleftrightarrow> prefix (z # n') (y # ys) \<and> Q (z # n') \<and>
            (\<forall>m. prefix m (y # ys) \<and> Q m \<longrightarrow> length (z # n') \<le> length m)"
      proof
        assume h: "z = y \<and> prefix n' ys \<and> Q (y # n') \<and>
            (\<forall>m. prefix m ys \<and> Q (y # m) \<longrightarrow> length n' \<le> length m)"
        have "length (z # n') \<le> length m" if m: "prefix m (y # ys) \<and> Q m" for m
        proof (cases m)
          case Nil
          with m False show ?thesis by simp
        next
          case (Cons w m')
          with m have "w = y" "prefix m' ys" "Q (y # m')" by auto
          with h have "length n' \<le> length m'" by blast
          with Cons show ?thesis by simp
        qed
        with h show "prefix (z # n') (y # ys) \<and> Q (z # n') \<and>
            (\<forall>m. prefix m (y # ys) \<and> Q m \<longrightarrow> length (z # n') \<le> length m)"
          by auto
      next
        assume h: "prefix (z # n') (y # ys) \<and> Q (z # n') \<and>
            (\<forall>m. prefix m (y # ys) \<and> Q m \<longrightarrow> length (z # n') \<le> length m)"
        then have zy: "z = y" "prefix n' ys" "Q (y # n')" by auto
        have "length n' \<le> length m" if m: "prefix m ys \<and> Q (y # m)" for m
        proof -
          from m have "prefix (y # m) (y # ys) \<and> Q (y # m)" by simp
          with h have "length (z # n') \<le> length (y # m)" by blast
          then show ?thesis by simp
        qed
        with zy show "z = y \<and> prefix n' ys \<and> Q (y # n') \<and>
            (\<forall>m. prefix m ys \<and> Q (y # m) \<longrightarrow> length n' \<le> length m)"
          by blast
      qed
      finally show ?thesis using Cons by simp
    qed
  qed
qed


lemma rmatch_group_times:
  "length ds = n \<Longrightarrow> list_all (cc_match u c) ds \<Longrightarrow>
   rmatch ml u (Group i (Times n c)) (p, ds @ rest, g) = [(adv p ds, rest, (i, ds) # g)]"
  by (simp add: times_run_eq)

lemma rmatch_group_lazy:
  "rmatch ml u (Group i (LazyStar c)) (p, xs, g) =
     map (\<lambda>n. (adv p n, drop (length n) xs, (i, n) # g)) (prefixes (takeWhile (cc_match u c) xs))"
proof -
  have "take (length xs - length (drop (length n) xs)) xs = n"
    if "n \<in> set (prefixes (takeWhile (cc_match u c) xs))" for n
  proof -
    from that have "prefix n (takeWhile (cc_match u c) xs)" by (simp add: in_set_prefixes)
    moreover have "prefix (takeWhile (cc_match u c) xs) xs"
      by (metis prefixI takeWhile_dropWhile_id)
    ultimately have "prefix n xs" by (rule prefix_order.trans)
    then obtain r where "xs = n @ r" by (auto simp: prefix_def)
    then show ?thesis by simp
  qed
  then show ?thesis by (simp add: lazy_run_prefixes comp_def)
qed

lemma rmatch_lazy_then_lits:
  "rmatch ml u (Seq (Group i (LazyStar c)) (lits k)) (p, xs, g) =
     concat (map (\<lambda>n. if prefix k (drop (length n) xs)
                       then [(adv (adv p n) k, drop (length k) (drop (length n) xs), (i, n) # g)]
                       else [])
       (prefixes (takeWhile (cc_match u c) xs)))"
proof -
  have "rmatch ml u (Seq (Group i (LazyStar c)) (lits k)) (p, xs, g) =
      concat (map (rmatch ml u (lits k)) (rmatch ml u (Group i (LazyStar c)) (p, xs, g)))"
    by (simp only: rmatch.simps(4))
  also have "\<dots> = concat (map (rmatch ml u (lits k))
      (map (\<lambda>n. (adv p n, drop (length n) xs, (i, n) # g)) (prefixes (takeWhile (cc_match u c) xs))))"
    by (simp only: rmatch_group_lazy)
  finally show ?thesis by (simp only: map_map comp_def rmatch_lits)
qed

lemma rmatch_filename:
  assumes "length code = 6" "list_all (cc_match u Digit) code"
    and "length yr = 4" "list_all (cc_match u Digit) yr"
  shows "rmatch False u filename_pattern (None, code @ 45 # yr @ 45 # rest, []) =
     concat (map (\<lambda>n. if prefix (ascii ''.txt'') (drop (length n) rest)
                       then [(adv (adv (Some 45) n) (ascii ''.txt''),
                              drop (length (ascii ''.txt'')) (drop (length n) rest),
                              [(3, n), (2, yr), (1, code)])]
                       else [])
       (prefixes (takeWhile (cc_match u Dot) rest)))"
proof -
  have 1: "rmatch False u (Group 1 (Times 6 Digit)) (None, code @ 45 # yr @ 45 # rest, []) =
      [(adv None code, 45 # yr @ 45 # rest, [(1, code)])]"
    using assms(1,2) by (rule rmatch_group_times)
  have 2: "rmatch False u (Atom (Lit 45)) (adv None code, 45 # yr @ 45 # rest, [(1, code)]) =
      [(Some 45, yr @ 45 # rest, [(1, code)])]"
    by (simp add: rmatch_lit)
  have 3: "rmatch False u (Group 2 (Times 4 Digit)) (Some 45, yr @ 45 # rest, [(1, code)]) =
      [(adv (Some 45) yr, 45 # rest, [(2, yr), (1, code)])]"
    using assms(3,4) by (rule rmatch_group_times)
  have 4: "rmatch False u (Atom (Lit 45)) (adv (Some 45) yr, 45 # rest, [(2, yr), (1, code)]) =
      [(Some 45, rest, [(2, yr), (1, code)])]"
    by (simp add: rmatch_lit)
  have seq: "rmatch ml u (Seq r1 r2) st = rmatch ml u r2 st'" if "rmatch ml u r1 st = [st']"
    for ml r1 r2 st st'
    using that by simp
  show ?thesis
    unfolding filename_pattern_def
    by (simp only: seq [OF 1] seq [OF 2] seq [OF 3] seq [OF 4] rmatch_lazy_then_lits)
qed


lemma cc_digit: "cc_match u Digit = (\<lambda>d. decimal u d \<noteq> None)"
  by (rule ext) simp

lemma cc_dot: "list_all (cc_match u Dot) n \<longleftrightarrow> 10 \<notin> set n"
  by (induction n) auto

lemma lang_SeqI:
  "lang ml u r1 p y1 \<Longrightarrow> (\<And>q. lang ml u r2 q y2) \<Longrightarrow> lang ml u (Seq r1 r2) p (y1 @ y2)"
  by auto

lemma lang_filename:
  "lang ml u filename_pattern p ys \<longleftrightarrow>
     (\<exists>code yr nm. ys = code @ [45] @ yr @ [45] @ nm @ ascii ''.txt'' \<and>
        length code = 6 \<and> list_all (\<lambda>d. decimal u d \<noteq> None) code \<and>
        length yr = 4 \<and> list_all (\<lambda>d. decimal u d \<noteq> None) yr \<and> 10 \<notin> set nm)"
proof
  assume "lang ml u filename_pattern p ys"
  then obtain code yr nm where "ys = code @ [45] @ yr @ [45] @ nm @ ascii ''.txt''"
    "length code = 6" "list_all (cc_match u Digit) code"
    "length yr = 4" "list_all (cc_match u Digit) yr" "list_all (cc_match u Dot) nm"
    unfolding filename_pattern_def by auto
  then show "\<exists>code yr nm. ys = code @ [45] @ yr @ [45] @ nm @ ascii ''.txt'' \<and>
        length code = 6 \<and> list_all (\<lambda>d. decimal u d \<noteq> None) code \<and>
        length yr = 4 \<and> list_all (\<lambda>d. decimal u d \<noteq> None) yr \<and> 10 \<notin> set nm"
    unfolding cc_digit cc_dot by blast
next
  assume "\<exists>code yr nm. ys = code @ [45] @ yr @ [45] @ nm @ ascii ''.txt'' \<and>
        length code = 6 \<and> list_all (\<lambda>d. decimal u d \<noteq> None) code \<and>
        length yr = 4 \<and> list_all (\<lambda>d. decimal u d \<noteq> None) yr \<and> 10 \<notin> set nm"
  then obtain code yr nm where h: "ys = code @ [45] @ yr @ [45] @ nm @ ascii ''.txt''"
    "length code = 6" "list_all (cc_match u Digit) code"
    "length yr = 4" "list_all (cc_match u Digit) yr" "list_all (cc_match u Dot) nm"
    unfolding cc_digit cc_dot by blast
  have g1: "lang ml u (Group 1 (Times 6 Digit)) q code" for q using h(2,3) by simp
  have g2: "lang ml u (Group 2 (Times 4 Digit)) q yr" for q using h(4,5) by simp
  have g3: "lang ml u (Group 3 (LazyStar Dot)) q nm" for q using h(6) by simp
  have hy: "lang ml u (Atom (Lit 45)) q [45]" for q by simp
  have tx: "lang ml u (lits (ascii ''.txt'')) q (ascii ''.txt'')" for q by simp
  have "lang ml u filename_pattern p (code @ [45] @ yr @ [45] @ nm @ ascii ''.txt'')"
    unfolding filename_pattern_def
    by (intro lang_SeqI g1 g2 g3 hy tx)
  with h(1) show "lang ml u filename_pattern p ys" by simp
qed

lemma digits_value_Some:
  "list_all (\<lambda>d. decimal u d \<noteq> None) ds \<Longrightarrow> \<exists>v. digits_value u acc ds = Some v"
  by (induction ds arbitrary: acc) auto

lemma py_int_digits:
  "ds \<noteq> [] \<Longrightarrow> list_all (\<lambda>d. decimal u d \<noteq> None) ds \<Longrightarrow> \<exists>y. py_int u (Some ds) = Inr y"
  using digits_value_Some [of u ds 0] by (auto simp: py_int_def)

lemma prefix_takeWhile: "prefix n xs \<Longrightarrow> list_all P n \<Longrightarrow> prefix n (takeWhile P xs)"
proof -
  assume "prefix n xs" "list_all P n"
  then obtain r where "xs = n @ r" "\<forall>x\<in>set n. P x" by (auto simp: prefix_def list_all_iff)
  then have "takeWhile P xs = n @ takeWhile P r" by (simp add: takeWhile_append2)
  then show ?thesis by simp
qed

lemma takeWhile_prefix: "prefix (takeWhile P xs) xs"
  by (metis prefixI takeWhile_dropWhile_id)

lemma parse_filename_no_match:
  assumes "\<not> (\<exists>code yr nm extra. fn = code @ [45] @ yr @ [45] @ nm @ ascii ''.txt'' @ extra \<and>
        length code = 6 \<and> list_all (\<lambda>d. decimal u d \<noteq> None) code \<and>
        length yr = 4 \<and> list_all (\<lambda>d. decimal u d \<noteq> None) yr \<and> 10 \<notin> set nm)"
  shows "parse_filename u fn = Inr (None, None, None)"
proof -
  have "\<not> (\<exists>ys rest. fn = ys @ rest \<and> lang False u filename_pattern None ys)"
  proof
    assume "\<exists>ys rest. fn = ys @ rest \<and> lang False u filename_pattern None ys"
    then obtain ys rest where "fn = ys @ rest" "lang False u filename_pattern None ys" by blast
    then obtain code yr nm where "fn = (code @ [45] @ yr @ [45] @ nm @ ascii ''.txt'') @ rest"
      "length code = 6" "list_all (\<lambda>d. decimal u d \<noteq> None) code"
      "length yr = 4" "list_all (\<lambda>d. decimal u d \<noteq> None) yr" "10 \<notin> set nm"
      unfolding lang_filename by blast
    then have "fn = code @ [45] @ yr @ [45] @ nm @ ascii ''.txt'' @ rest \<and>
        length code = 6 \<and> list_all (\<lambda>d. decimal u d \<noteq> None) code \<and>
        length yr = 4 \<and> list_all (\<lambda>d. decimal u d \<noteq> None) yr \<and> 10 \<notin> set nm"
      by simp
    with assms show False by blast
  qed
  then have "rmatch False u filename_pattern (None, fn, []) = []"
    using rmatch_nonempty [of False u filename_pattern None fn "[]"] by blast
  then show ?thesis by (simp add: parse_filename_def re_match_def first_match_def)
qed

lemma parse_filename_first_txt:
  assumes fn: "fn = code @ [45] @ yr @ [45] @ nm @ ascii ''.txt'' @ extra"
    and code: "length code = 6" "list_all (\<lambda>d. decimal u d \<noteq> None) code"
    and yr: "length yr = 4" "list_all (\<lambda>d. decimal u d \<noteq> None) yr"
    and nm: "10 \<notin> set nm"
  shows "\<exists>name y. parse_filename u fn = Inr (Some code, Some y, Some name) \<and>
      py_int u (Some yr) = Inr y \<and>
      prefix (name @ ascii ''.txt'') (nm @ ascii ''.txt'' @ extra) \<and> 10 \<notin> set name \<and>
      (\<forall>m. prefix (m @ ascii ''.txt'') (nm @ ascii ''.txt'' @ extra) \<longrightarrow> length name \<le> length m)"
proof -
  define rest where "rest = nm @ ascii ''.txt'' @ extra"
  define Q where "Q = (\<lambda>n::ustr. prefix (ascii ''.txt'') (drop (length n) rest))"
  define ys where "ys = takeWhile (cc_match u Dot) rest"
  have Q_iff: "Q n \<longleftrightarrow> prefix (n @ ascii ''.txt'') rest" if "prefix n rest" for n
  proof -
    from that obtain r where r: "rest = n @ r" by (auto simp: prefix_def)
    then show ?thesis by (simp add: Q_def)
  qed
  have ys_rest: "prefix ys rest" unfolding ys_def by (rule takeWhile_prefix)
  have in_ys: "prefix n ys \<longleftrightarrow> prefix n rest \<and> 10 \<notin> set n" for n
  proof
    assume n: "prefix n ys"
    from n ys_rest have 1: "prefix n rest" by (rule prefix_order.trans)
    from n have "set n \<subseteq> set ys" by (auto simp: prefix_def)
    moreover have "\<forall>x\<in>set ys. cc_match u Dot x" unfolding ys_def by (auto dest: set_takeWhileD)
    ultimately have "10 \<notin> set n" by auto
    with 1 show "prefix n rest \<and> 10 \<notin> set n" by simp
  next
    assume "prefix n rest \<and> 10 \<notin> set n"
    then show "prefix n ys" unfolding ys_def by (simp add: prefix_takeWhile cc_dot)
  qed
  have nm_rest: "prefix nm rest" by (simp add: rest_def)
  with nm have nm_ys: "prefix nm ys" by (simp add: in_ys)
  have "Q nm" by (simp add: Q_def rest_def)
  with nm_ys have "find Q (prefixes ys) \<noteq> None" by (auto simp: find_None_iff in_set_prefixes)
  then obtain name where found: "find Q (prefixes ys) = Some name" by blast
  then have name: "prefix name ys" "Q name"
    and least: "\<And>m. prefix m ys \<Longrightarrow> Q m \<Longrightarrow> length name \<le> length m"
    unfolding find_prefixes by blast+
  from name(1) have name_rest: "prefix name rest" "10 \<notin> set name" by (simp_all add: in_ys)
  with name(2) have name_txt: "prefix (name @ ascii ''.txt'') rest" by (simp add: Q_iff)
  have minimal: "length name \<le> length m" if m: "prefix (m @ ascii ''.txt'') rest" for m
  proof (rule ccontr)
    assume "\<not> length name \<le> length m"
    then have less: "length m < length name" by simp
    from m have m_rest: "prefix m rest" by (auto simp: prefix_def)
    from less have "length m \<le> length name" by simp
    with m_rest name_rest(1) have "prefix m name" by (rule prefix_length_prefix)
    from this name(1) have "prefix m ys" by (rule prefix_order.trans)
    moreover from m m_rest have "Q m" by (simp add: Q_iff)
    ultimately have "length name \<le> length m" by (rule least)
    with less show False by simp
  qed
  from yr(1) have "yr \<noteq> []" by auto
  from py_int_digits [OF this yr(2)] obtain y where y: "py_int u (Some yr) = Inr y"
    by blast
  have c: "list_all (cc_match u Digit) code" "list_all (cc_match u Digit) yr"
    using code(2) yr(2) by (simp_all add: cc_digit)
  have fn': "fn = code @ 45 # yr @ 45 # rest" by (simp add: fn rest_def)
  have "re_match False u filename_pattern fn =
      map_option (\<lambda>n. (adv (adv (Some 45) n) (ascii ''.txt''),
          drop (length (ascii ''.txt'')) (drop (length n) rest), [(3, n), (2, yr), (1, code)]))
        (find Q (prefixes ys))"
    unfolding re_match_def fn' rmatch_filename [OF code(1) c(1) yr(1) c(2)] Q_def ys_def
    by (rule first_match_concat)
  with found have "re_match False u filename_pattern fn =
      Some (adv (adv (Some 45) name) (ascii ''.txt''),
          drop (length (ascii ''.txt'')) (drop (length name) rest), [(3, name), (2, yr), (1, code)])"
    by simp
  with y have "parse_filename u fn = Inr (Some code, Some y, Some name)"
    by (simp add: parse_filename_def group_def)
  moreover note y
  moreover from name_txt have "prefix (name @ ascii ''.txt'') (nm @ ascii ''.txt'' @ extra)"
    by (simp only: rest_def)
  moreover note name_rest(2)
  moreover from minimal have "\<forall>m. prefix (m @ ascii ''.txt'') (nm @ ascii ''.txt'' @ extra) \<longrightarrow>
      length name \<le> length m"
    by (simp only: rest_def) blast
  ultimately show ?thesis by (intro exI conjI)
qed

lemma first_txt_at_end:
  assumes p: "prefix (name @ ascii ''.txt'') (nm @ ascii ''.txt'')"
    and least: "length name \<le> length nm"
    and no: "\<not> str_contains (ascii ''.txt'') (nm @ ascii ''.tx'')"
  shows "name = nm"
proof (rule ccontr)
  assume ne: "name \<noteq> nm"
  from p obtain r where r: "nm @ ascii ''.txt'' = name @ ascii ''.txt'' @ r"
    by (auto simp: prefix_def)
  have "r \<noteq> []"
  proof
    assume "r = []"
    with r have "nm = name" by simp
    with ne show False by simp
  qed
  then obtain r' z where r': "r = r' @ [z]" by (cases r rule: rev_cases) auto
  have "nm @ ascii ''.txt'' = (nm @ ascii ''.tx'') @ [116]" by (simp add: ascii_def)
  with r r' have "(nm @ ascii ''.tx'') @ [116] = (name @ ascii ''.txt'' @ r') @ [z]" by simp
  then have "nm @ ascii ''.tx'' = name @ ascii ''.txt'' @ r'" by (simp only: append1_eq_conv)
  then have "str_contains (ascii ''.txt'') (nm @ ascii ''.tx'')"
    unfolding str_contains_iff by blast
  with no show False by simp
qed

lemmas digit_defs = basic_latin_def ascii_def

text \<open>
  Claim C6, as amended.  For a file name made of a code of six digits, a hyphen, a year
  of four digits, a hyphen, a name and the extension \<^verbatim>\<open>.txt\<close>, where the name holds
  no line feed and \<^verbatim>\<open>.txt\<close> occurs nowhere before the final extension,
  \<open>parse_filename\<close> returns the code as a string, the year as the integer its digits
  write, and the name.  It returns three times \<open>None\<close> exactly for the file names of
  which no prefix has the shape code, hyphen, year, hyphen, a name without line feed,
  \<^verbatim>\<open>.txt\<close>.  The example of the specification parses to 600000, 2020 and
  \<^verbatim>\<open>SampleCorp\<close>, and the file name without a year to three times \<open>None\<close>.
\<close>

theorem parse_filename_shape:
  "(\<forall>code yr nm.
      filename = code @ [45] @ yr @ [45] @ nm @ ascii ''.txt'' \<and>
      length code = 6 \<and> list_all (\<lambda>d. decimal u d \<noteq> None) code \<and>
      length yr = 4 \<and> list_all (\<lambda>d. decimal u d \<noteq> None) yr \<and>
      10 \<notin> set nm \<and> \<not> str_contains (ascii ''.txt'') (nm @ ascii ''.tx'') \<longrightarrow>
      (\<exists>y. parse_filename u filename = Inr (Some code, Some y, Some nm) \<and>
           py_int u (Some yr) = Inr y)) \<and>
   (parse_filename u filename = Inr (None, None, None) \<longleftrightarrow>
      \<not> (\<exists>code yr nm extra.
           filename = code @ [45] @ yr @ [45] @ nm @ ascii ''.txt'' @ extra \<and>
           length code = 6 \<and> list_all (\<lambda>d. decimal u d \<noteq> None) code \<and>
           length yr = 4 \<and> list_all (\<lambda>d. decimal u d \<noteq> None) yr \<and> 10 \<notin> set nm)) \<and>
   parse_filename basic_latin (ascii ''600000-2020-SampleCorp.txt'') =
     Inr (Some (ascii ''600000''), Some 2020, Some (ascii ''SampleCorp'')) \<and>
   parse_filename basic_latin (ascii ''600000-SampleCorp.txt'') = Inr (None, None, None)"
proof (intro conjI allI impI)
  fix code yr nm
  assume h: "filename = code @ [45] @ yr @ [45] @ nm @ ascii ''.txt'' \<and>
      length code = 6 \<and> list_all (\<lambda>d. decimal u d \<noteq> None) code \<and>
      length yr = 4 \<and> list_all (\<lambda>d. decimal u d \<noteq> None) yr \<and>
      10 \<notin> set nm \<and> \<not> str_contains (ascii ''.txt'') (nm @ ascii ''.tx'')"
  then have fn: "filename = code @ [45] @ yr @ [45] @ nm @ ascii ''.txt'' @ []" by simp
  from h parse_filename_first_txt [OF fn, of u] obtain name y where
    r: "parse_filename u filename = Inr (Some code, Some y, Some name)" "py_int u (Some yr) = Inr y"
      "prefix (name @ ascii ''.txt'') (nm @ ascii ''.txt'' @ [])"
      "\<forall>m. prefix (m @ ascii ''.txt'') (nm @ ascii ''.txt'' @ []) \<longrightarrow> length name \<le> length m"
    by blast
  from r(4) have "length name \<le> length nm" by simp
  with r(3) h have "name = nm" by (simp add: first_txt_at_end)
  with r(1,2) show "\<exists>y. parse_filename u filename = Inr (Some code, Some y, Some nm) \<and>
           py_int u (Some yr) = Inr y"
    by blast
next
  show "parse_filename u filename = Inr (None, None, None) \<longleftrightarrow>
      \<not> (\<exists>code yr nm extra.
           filename = code @ [45] @ yr @ [45] @ nm @ ascii ''.txt'' @ extra \<and>
           length code = 6 \<and> list_all (\<lambda>d. decimal u d \<noteq> None) code \<and>
           length yr = 4 \<and> list_all (\<lambda>d. decimal u d \<noteq> None) yr \<and> 10 \<notin> set nm)"
  proof
    assume none: "parse_filename u filename = Inr (None, None, None)"
    show "\<not> (\<exists>code yr nm extra.
           filename = code @ [45] @ yr @ [45] @ nm @ ascii ''.txt'' @ extra \<and>
           length code = 6 \<and> list_all (\<lambda>d. decimal u d \<noteq> None) code \<and>
           length yr = 4 \<and> list_all (\<lambda>d. decimal u d \<noteq> None) yr \<and> 10 \<notin> set nm)"
    proof
      assume "\<exists>code yr nm extra.
           filename = code @ [45] @ yr @ [45] @ nm @ ascii ''.txt'' @ extra \<and>
           length code = 6 \<and> list_all (\<lambda>d. decimal u d \<noteq> None) code \<and>
           length yr = 4 \<and> list_all (\<lambda>d. decimal u d \<noteq> None) yr \<and> 10 \<notin> set nm"
      then obtain code yr nm extra where
        s: "filename = code @ [45] @ yr @ [45] @ nm @ ascii ''.txt'' @ extra"
          "length code = 6" "list_all (\<lambda>d. decimal u d \<noteq> None) code"
          "length yr = 4" "list_all (\<lambda>d. decimal u d \<noteq> None) yr" "10 \<notin> set nm"
        by blast
      from parse_filename_first_txt [OF s] obtain name y where
        "parse_filename u filename = Inr (Some code, Some y, Some name)" by blast
      with none show False by simp
    qed
  next
    assume "\<not> (\<exists>code yr nm extra.
           filename = code @ [45] @ yr @ [45] @ nm @ ascii ''.txt'' @ extra \<and>
           length code = 6 \<and> list_all (\<lambda>d. decimal u d \<noteq> None) code \<and>
           length yr = 4 \<and> list_all (\<lambda>d. decimal u d \<noteq> None) yr \<and> 10 \<notin> set nm)"
    then show "parse_filename u filename = Inr (None, None, None)"
      by (rule parse_filename_no_match)
  qed
next
  show "parse_filename basic_latin (ascii ''600000-2020-SampleCorp.txt'') =
     Inr (Some (ascii ''600000''), Some 2020, Some (ascii ''SampleCorp''))"
    by code_simp
  show "parse_filename basic_latin (ascii ''600000-SampleCorp.txt'') = Inr (None, None, None)"
    by code_simp
qed

theorem parse_filename_shape_witness:
  "ascii ''000001-2019-Ping An.txt'' =
     ascii ''000001'' @ [45] @ ascii ''2019'' @ [45] @ ascii ''Ping An'' @ ascii ''.txt'' \<and>
   length (ascii ''000001'') = 6 \<and>
   list_all (\<lambda>d. decimal basic_latin d \<noteq> None) (ascii ''000001'') \<and>
   length (ascii ''2019'') = 4 \<and>
   list_all (\<lambda>d. decimal basic_latin d \<noteq> None) (ascii ''2019'') \<and>
   10 \<notin> set (ascii ''Ping An'') \<and>
   \<not> str_contains (ascii ''.txt'') (ascii ''Ping An'' @ ascii ''.tx'') \<and>
   py_int basic_latin (Some (ascii ''2019'')) = Inr 2019 \<and>
   parse_filename basic_latin (ascii ''000001-2019-Ping An.txt'') =
     Inr (Some (ascii ''000001''), Some 2019, Some (ascii ''Ping An''))"
proof -
  have h: "ascii ''000001-2019-Ping An.txt'' =
     ascii ''000001'' @ [45] @ ascii ''2019'' @ [45] @ ascii ''Ping An'' @ ascii ''.txt'' \<and>
   length (ascii ''000001'') = 6 \<and>
   list_all (\<lambda>d. decimal basic_latin d \<noteq> None) (ascii ''000001'') \<and>
   length (ascii ''2019'') = 4 \<and>
   list_all (\<lambda>d. decimal basic_latin d \<noteq> None) (ascii ''2019'') \<and>
   10 \<notin> set (ascii ''Ping An'') \<and>
   \<not> str_contains (ascii ''.txt'') (ascii ''Ping An'' @ ascii ''.tx'')"
    by (simp add: digit_defs)
  have i: "py_int basic_latin (Some (ascii ''2019'')) = Inr 2019"
    by (simp add: py_int_def digit_defs)
  from h parse_filename_shape [of "ascii ''000001-2019-Ping An.txt''" basic_latin]
  obtain y where "parse_filename basic_latin (ascii ''000001-2019-Ping An.txt'') =
      Inr (Some (ascii ''000001''), Some y, Some (ascii ''Ping An''))"
    "py_int basic_latin (Some (ascii ''2019'')) = Inr y"
    by blast
  with i have "parse_filename basic_latin (ascii ''000001-2019-Ping An.txt'') =
      Inr (Some (ascii ''000001''), Some 2019, Some (ascii ''Ping An''))"
    by simp
  with h i show ?thesis by blast
qed

text \<open>
  The claim as stated fails in both directions.  \<^verbatim>\<open>600000-2020-SampleCorp.txt.bak\<close>
  has not the shape, yet it is parsed; \<^verbatim>\<open>600000-2020-a.txt.txt\<close> has the shape with
  the name \<^verbatim>\<open>a.txt\<close>, yet the name returned is \<^verbatim>\<open>a\<close>.
\<close>

theorem parse_filename_shape_counterexample:
  "\<not> filename_shape basic_latin (ascii ''600000-2020-SampleCorp.txt.bak'') \<and>
   parse_filename basic_latin (ascii ''600000-2020-SampleCorp.txt.bak'') =
     Inr (Some (ascii ''600000''), Some 2020, Some (ascii ''SampleCorp'')) \<and>
   ascii ''600000-2020-a.txt.txt'' =
     ascii ''600000'' @ [45] @ ascii ''2020'' @ [45] @ ascii ''a.txt'' @ ascii ''.txt'' \<and>
   parse_filename basic_latin (ascii ''600000-2020-a.txt.txt'') =
     Inr (Some (ascii ''600000''), Some 2020, Some (ascii ''a''))"
proof (intro conjI)
  show "\<not> filename_shape basic_latin (ascii ''600000-2020-SampleCorp.txt.bak'')"
  proof
    assume "filename_shape basic_latin (ascii ''600000-2020-SampleCorp.txt.bak'')"
    then obtain code yr name where
      "ascii ''600000-2020-SampleCorp.txt.bak'' = code @ [45] @ yr @ [45] @ name @ ascii ''.txt''"
      unfolding filename_shape_def by blast
    then have "last (ascii ''600000-2020-SampleCorp.txt.bak'') =
        last (code @ [45] @ yr @ [45] @ name @ ascii ''.txt'')"
      by simp
    then show False by (simp add: ascii_def)
  qed
  show "parse_filename basic_latin (ascii ''600000-2020-SampleCorp.txt.bak'') =
     Inr (Some (ascii ''600000''), Some 2020, Some (ascii ''SampleCorp''))"
    by code_simp
  show "ascii ''600000-2020-a.txt.txt'' =
     ascii ''600000'' @ [45] @ ascii ''2020'' @ [45] @ ascii ''a.txt'' @ ascii ''.txt''"
    by (simp add: ascii_def)
  show "parse_filename basic_latin (ascii ''600000-2020-a.txt.txt'') =
     Inr (Some (ascii ''600000''), Some 2020, Some (ascii ''a''))"
    by code_simp
qed

text \<open>
  Claim C10, as amended.  \<open>parse_filename\<close> matches a prefix of the file name only.
  For every file name that begins with six digits, a hyphen, four digits, a hyphen, and
  then any characters other than a line feed followed by \<^verbatim>\<open>.txt\<close>, whatever follows
  that, it returns the code, the year and a name; the name is the shortest text that is
  followed by \<^verbatim>\<open>.txt\<close>, that is, the text before the first \<^verbatim>\<open>.txt\<close>.
\<close>

theorem parse_filename_prefix:
  "filename = code @ [45] @ yr @ [45] @ nm @ ascii ''.txt'' @ extra \<and>
   length code = 6 \<and> list_all (\<lambda>d. decimal u d \<noteq> None) code \<and>
   length yr = 4 \<and> list_all (\<lambda>d. decimal u d \<noteq> None) yr \<and> 10 \<notin> set nm \<longrightarrow>
   (\<exists>name y.
      parse_filename u filename = Inr (Some code, Some y, Some name) \<and>
      py_int u (Some yr) = Inr y \<and>
      prefix (name @ ascii ''.txt'') (nm @ ascii ''.txt'' @ extra) \<and>
      (\<forall>m. prefix (m @ ascii ''.txt'') (nm @ ascii ''.txt'' @ extra) \<longrightarrow>
           length name \<le> length m))"
proof
  assume h: "filename = code @ [45] @ yr @ [45] @ nm @ ascii ''.txt'' @ extra \<and>
   length code = 6 \<and> list_all (\<lambda>d. decimal u d \<noteq> None) code \<and>
   length yr = 4 \<and> list_all (\<lambda>d. decimal u d \<noteq> None) yr \<and> 10 \<notin> set nm"
  then have s: "filename = code @ [45] @ yr @ [45] @ nm @ ascii ''.txt'' @ extra"
    "length code = 6" "list_all (\<lambda>d. decimal u d \<noteq> None) code"
    "length yr = 4" "list_all (\<lambda>d. decimal u d \<noteq> None) yr" "10 \<notin> set nm"
    by simp_all
  from parse_filename_first_txt [OF s] show "\<exists>name y.
      parse_filename u filename = Inr (Some code, Some y, Some name) \<and>
      py_int u (Some yr) = Inr y \<and>
      prefix (name @ ascii ''.txt'') (nm @ ascii ''.txt'' @ extra) \<and>
      (\<forall>m. prefix (m @ ascii ''.txt'') (nm @ ascii ''.txt'' @ extra) \<longrightarrow>
           length name \<le> length m)"
    by blast
qed

theorem parse_filename_prefix_witness:
  "ascii ''600000-2020-a.txt.txt (1)'' =
     ascii ''600000'' @ [45] @ ascii ''2020'' @ [45] @ ascii ''a.txt'' @ ascii ''.txt'' @ ascii '' (1)'' \<and>
   length (ascii ''600000'') = 6 \<and>
   list_all (\<lambda>d. decimal basic_latin d \<noteq> None) (ascii ''600000'') \<and>
   length (ascii ''2020'') = 4 \<and>
   list_all (\<lambda>d. decimal basic_latin d \<noteq> None) (ascii ''2020'') \<and>
   10 \<notin> set (ascii ''a.txt'') \<and>
   (\<exists>name y.
      parse_filename basic_latin (ascii ''600000-2020-a.txt.txt (1)'') =
        Inr (Some (ascii ''600000''), Some y, Some name) \<and>
      py_int basic_latin (Some (ascii ''2020'')) = Inr y \<and>
      prefix (name @ ascii ''.txt'') (ascii ''a.txt'' @ ascii ''.txt'' @ ascii '' (1)'') \<and>
      (\<forall>m. prefix (m @ ascii ''.txt'') (ascii ''a.txt'' @ ascii ''.txt'' @ ascii '' (1)'') \<longrightarrow>
           length name \<le> length m)) \<and>
   parse_filename basic_latin (ascii ''600000-2020-a.txt.txt (1)'') =
     Inr (Some (ascii ''600000''), Some 2020, Some (ascii ''a''))"
proof -
  have h: "ascii ''600000-2020-a.txt.txt (1)'' =
     ascii ''600000'' @ [45] @ ascii ''2020'' @ [45] @ ascii ''a.txt'' @ ascii ''.txt'' @ ascii '' (1)'' \<and>
   length (ascii ''600000'') = 6 \<and>
   list_all (\<lambda>d. decimal basic_latin d \<noteq> None) (ascii ''600000'') \<and>
   length (ascii ''2020'') = 4 \<and>
   list_all (\<lambda>d. decimal basic_latin d \<noteq> None) (ascii ''2020'') \<and>
   10 \<notin> set (ascii ''a.txt'')"
    by (simp add: digit_defs)
  have e: "parse_filename basic_latin (ascii ''600000-2020-a.txt.txt (1)'') =
     Inr (Some (ascii ''600000''), Some 2020, Some (ascii ''a''))"
    by code_simp
  from h parse_filename_prefix [of "ascii ''600000-2020-a.txt.txt (1)''" "ascii ''600000''"
      "ascii ''2020''" "ascii ''a.txt''" "ascii '' (1)''" basic_latin]
  have "\<exists>name y.
      parse_filename basic_latin (ascii ''600000-2020-a.txt.txt (1)'') =
        Inr (Some (ascii ''600000''), Some y, Some name) \<and>
      py_int basic_latin (Some (ascii ''2020'')) = Inr y \<and>
      prefix (name @ ascii ''.txt'') (ascii ''a.txt'' @ ascii ''.txt'' @ ascii '' (1)'') \<and>
      (\<forall>m. prefix (m @ ascii ''.txt'') (ascii ''a.txt'' @ ascii ''.txt'' @ ascii '' (1)'') \<longrightarrow>
           length name \<le> length m)"
    by (rule mp [rotated])
  with h e show ?thesis by (intro conjI) simp_all
qed

text \<open>
  The claim as stated fails when a line feed stands before the first \<^verbatim>\<open>.txt\<close>: the
  dot of the pattern does not match it, and the file name is not parsed.
\<close>

theorem parse_filename_prefix_counterexample:
  "ascii ''600000-2020-a'' @ [10] @ ascii ''b.txt'' =
     ascii ''600000'' @ [45] @ ascii ''2020'' @ [45] @ (ascii ''a'' @ [10] @ ascii ''b'') @ ascii ''.txt'' \<and>
   parse_filename basic_latin (ascii ''600000-2020-a'' @ [10] @ ascii ''b.txt'') =
     Inr (None, None, None)"
proof
  show "ascii ''600000-2020-a'' @ [10] @ ascii ''b.txt'' =
     ascii ''600000'' @ [45] @ ascii ''2020'' @ [45] @ (ascii ''a'' @ [10] @ ascii ''b'') @ ascii ''.txt''"
    by (simp add: ascii_def)
  show "parse_filename basic_latin (ascii ''600000-2020-a'' @ [10] @ ascii ''b.txt'') =
     Inr (None, None, None)"
    by code_simp
qed

section \<open>The batch driver\<close>

lemma process_file_selected:
  assumes "parse_filename u txt_file = Inr (code, Some y, name)" "2015 \<le> y" "y \<le> 2023"
  shows "process_file u fs b txt_file =
     (case analyze_report u fs txt_file of
        Some sc \<Rightarrow>
          b\<lparr>results := results b @
              [\<lparr>standards_score = standards_score sc, assurance_score = assurance_score sc,
                metrics_score = metrics_score sc, total_score = total_score sc,
                stock_code = code, company_name = name, year = y\<rparr>]\<rparr>
      | None \<Rightarrow> record_failure b txt_file (Literal analysis_failed))"
  using assms by (simp add: process_file_def year_selected_def)

lemma process_file_filtered:
  assumes "parse_filename u txt_file = Inr (code, Some y, name)" "\<not> (2015 \<le> y \<and> y \<le> 2023)"
  shows "process_file u fs b txt_file = record_failure b txt_file (Literal year_out_of_range)"
  using assms by (auto simp: process_file_def year_selected_def)

lemma process_file_unparsed:
  assumes "parse_filename u txt_file = Inr (code, None, name)"
  shows "process_file u fs b txt_file = record_failure b txt_file (Literal year_out_of_range)"
  using assms by (simp add: process_file_def)

lemma parse_filename_no_error: "parse_filename u filename \<noteq> Inl e"
proof (cases "\<exists>code yr nm extra. filename = code @ [45] @ yr @ [45] @ nm @ ascii ''.txt'' @ extra \<and>
        length code = 6 \<and> list_all (\<lambda>d. decimal u d \<noteq> None) code \<and>
        length yr = 4 \<and> list_all (\<lambda>d. decimal u d \<noteq> None) yr \<and> 10 \<notin> set nm")
  case True
  then obtain code yr nm extra where
    s: "filename = code @ [45] @ yr @ [45] @ nm @ ascii ''.txt'' @ extra"
      "length code = 6" "list_all (\<lambda>d. decimal u d \<noteq> None) code"
      "length yr = 4" "list_all (\<lambda>d. decimal u d \<noteq> None) yr" "10 \<notin> set nm"
    by blast
  from parse_filename_first_txt [OF s] show ?thesis by auto
next
  case False
  then have "parse_filename u filename = Inr (None, None, None)" by (rule parse_filename_no_match)
  then show ?thesis by simp
qed


text \<open>
  Claim C7.  The loop of \<^verbatim>\<open>main\<close> scores a file exactly when its parsed year \<open>y\<close>
  satisfies \<open>2015 \<le> y \<le> 2023\<close>: then \<open>analyze_report\<close> is run and its scores are
  appended to the results (or the file is recorded with the reason U+5206 U+6790 U+5931
  U+8D25 when there is no text to analyse); with any other parsed year the file is not
  scored and is recorded with the reason that the year is not within 2015-2023.  Of the
  years 2014, 2015, 2023 and 2024 the test keeps 2015 and 2023, and a run of the loop on
  four such files gives two result rows and two filtered files.
\<close>

theorem year_filter:
  "(\<forall>code y name. parse_filename u txt_file = Inr (code, Some y, name) \<longrightarrow>
      (2015 \<le> y \<and> y \<le> 2023 \<longrightarrow>
         process_file u fs b txt_file =
           (case analyze_report u fs txt_file of
              Some sc \<Rightarrow>
                b\<lparr>results := results b @
                    [\<lparr>standards_score = standards_score sc, assurance_score = assurance_score sc,
                      metrics_score = metrics_score sc, total_score = total_score sc,
                      stock_code = code, company_name = name, year = y\<rparr>]\<rparr>
            | None \<Rightarrow> record_failure b txt_file (Literal analysis_failed))) \<and>
      (\<not> (2015 \<le> y \<and> y \<le> 2023) \<longrightarrow>
         process_file u fs b txt_file = record_failure b txt_file (Literal year_out_of_range))) \<and>
   [y \<leftarrow> [2014, 2015, 2023, 2024]. year_selected (Some y)] = [2015, 2023] \<and>
   main_loop basic_latin
     [ascii ''600000-2014-A.txt'' \<mapsto> ascii ''GRI'', ascii ''600000-2015-A.txt'' \<mapsto> ascii ''GRI'',
      ascii ''600000-2023-A.txt'' \<mapsto> ascii ''12%'', ascii ''600000-2024-A.txt'' \<mapsto> ascii ''GRI'']
     \<lparr>results = [], failed_files = []\<rparr>
     [ascii ''600000-2014-A.txt'', ascii ''600000-2015-A.txt'', ascii ''600000-2023-A.txt'',
      ascii ''600000-2024-A.txt''] =
   \<lparr>results =
      [\<lparr>standards_score = 1, assurance_score = 0, metrics_score = 0, total_score = 1,
        stock_code = Some (ascii ''600000''), company_name = Some (ascii ''A''), year = 2015\<rparr>,
       \<lparr>standards_score = 0, assurance_score = 0, metrics_score = 1, total_score = 1,
        stock_code = Some (ascii ''600000''), company_name = Some (ascii ''A''), year = 2023\<rparr>],
    failed_files =
      [\<lparr>failed_file = ascii ''600000-2014-A.txt'', reason = Literal year_out_of_range\<rparr>,
       \<lparr>failed_file = ascii ''600000-2024-A.txt'', reason = Literal year_out_of_range\<rparr>]\<rparr>"
proof (intro conjI)
  show "\<forall>code y name. parse_filename u txt_file = Inr (code, Some y, name) \<longrightarrow>
      (2015 \<le> y \<and> y \<le> 2023 \<longrightarrow>
         process_file u fs b txt_file =
           (case analyze_report u fs txt_file of
              Some sc \<Rightarrow>
                b\<lparr>results := results b @
                    [\<lparr>standards_score = standards_score sc, assurance_score = assurance_score sc,
                      metrics_score = metrics_score sc, total_score = total_score sc,
                      stock_code = code, company_name = name, year = y\<rparr>]\<rparr>
            | None \<Rightarrow> record_failure b txt_file (Literal analysis_failed))) \<and>
      (\<not> (2015 \<le> y \<and> y \<le> 2023) \<longrightarrow>
         process_file u fs b txt_file = record_failure b txt_file (Literal year_out_of_range))"
    using process_file_selected process_file_filtered by blast
  show "[y \<leftarrow> [2014, 2015, 2023, 2024]. year_selected (Some y)] = [2015, 2023]"
    by (simp add: year_selected_def)
  let ?fs = "[ascii ''600000-2014-A.txt'' \<mapsto> ascii ''GRI'', ascii ''600000-2015-A.txt'' \<mapsto> ascii ''GRI'',
      ascii ''600000-2023-A.txt'' \<mapsto> ascii ''12%'', ascii ''600000-2024-A.txt'' \<mapsto> ascii ''GRI'']"
  have p14: "parse_filename basic_latin (ascii ''600000-2014-A.txt'') =
      Inr (Some (ascii ''600000''), Some 2014, Some (ascii ''A''))" by code_simp
  have p15: "parse_filename basic_latin (ascii ''600000-2015-A.txt'') =
      Inr (Some (ascii ''600000''), Some 2015, Some (ascii ''A''))" by code_simp
  have p23: "parse_filename basic_latin (ascii ''600000-2023-A.txt'') =
      Inr (Some (ascii ''600000''), Some 2023, Some (ascii ''A''))" by code_simp
  have p24: "parse_filename basic_latin (ascii ''600000-2024-A.txt'') =
      Inr (Some (ascii ''600000''), Some 2024, Some (ascii ''A''))" by code_simp
  have f15: "?fs (ascii ''600000-2015-A.txt'') = Some (ascii ''GRI'')" by (simp add: ascii_def)
  have f23: "?fs (ascii ''600000-2023-A.txt'') = Some (ascii ''12%'')" by (simp add: ascii_def)
  have ne: "ascii ''GRI'' \<noteq> []" "ascii ''12%'' \<noteq> []" by (simp_all add: ascii_def)
  have c15: "check_standards_compliance basic_latin (ascii ''GRI'') = 1"
    "check_third_party_assurance basic_latin (ascii ''GRI'') = 0"
    by (simp_all add: run_keywords)
  have m15: "check_quantitative_metrics basic_latin (ascii ''GRI'') = 0"
    by (simp add: run_metrics)
  have c23: "check_standards_compliance basic_latin (ascii ''12%'') = 0"
    "check_third_party_assurance basic_latin (ascii ''12%'') = 0"
    by (simp_all add: run_keywords)
  have m23: "check_quantitative_metrics basic_latin (ascii ''12%'') = 1"
    by (simp add: run_metrics)
  have a15: "analyze_report basic_latin ?fs (ascii ''600000-2015-A.txt'') =
      Some \<lparr>standards_score = 1, assurance_score = 0, metrics_score = 0, total_score = 1\<rparr>"
    using analyze_report_Some [of ?fs "ascii ''600000-2015-A.txt''" "ascii ''GRI''" basic_latin]
      f15 ne(1) by (simp only: c15 m15) simp
  have a23: "analyze_report basic_latin ?fs (ascii ''600000-2023-A.txt'') =
      Some \<lparr>standards_score = 0, assurance_score = 0, metrics_score = 1, total_score = 1\<rparr>"
    using analyze_report_Some [of ?fs "ascii ''600000-2023-A.txt''" "ascii ''12%''" basic_latin]
      f23 ne(2) by (simp only: c23 m23) simp
  have s14: "process_file basic_latin ?fs b (ascii ''600000-2014-A.txt'') =
      record_failure b (ascii ''600000-2014-A.txt'') (Literal year_out_of_range)" for b
    by (rule process_file_filtered [OF p14]) simp
  have s24: "process_file basic_latin ?fs b (ascii ''600000-2024-A.txt'') =
      record_failure b (ascii ''600000-2024-A.txt'') (Literal year_out_of_range)" for b
    by (rule process_file_filtered [OF p24]) simp
  have s15: "process_file basic_latin ?fs b (ascii ''600000-2015-A.txt'') =
      b\<lparr>results := results b @
        [\<lparr>standards_score = 1, assurance_score = 0, metrics_score = 0, total_score = 1,
          stock_code = Some (ascii ''600000''), company_name = Some (ascii ''A''), year = 2015\<rparr>]\<rparr>" for b
    using process_file_selected [OF p15, of ?fs b] by (simp only: a15) simp
  have s23: "process_file basic_latin ?fs b (ascii ''600000-2023-A.txt'') =
      b\<lparr>results := results b @
        [\<lparr>standards_score = 0, assurance_score = 0, metrics_score = 1, total_score = 1,
          stock_code = Some (ascii ''600000''), company_name = Some (ascii ''A''), year = 2023\<rparr>]\<rparr>" for b
    using process_file_selected [OF p23, of ?fs b] by (simp only: a23) simp
  show "main_loop basic_latin
     [ascii ''600000-2014-A.txt'' \<mapsto> ascii ''GRI'', ascii ''600000-2015-A.txt'' \<mapsto> ascii ''GRI'',
      ascii ''600000-2023-A.txt'' \<mapsto> ascii ''12%'', ascii ''600000-2024-A.txt'' \<mapsto> ascii ''GRI'']
     \<lparr>results = [], failed_files = []\<rparr>
     [ascii ''600000-2014-A.txt'', ascii ''600000-2015-A.txt'', ascii ''600000-2023-A.txt'',
      ascii ''600000-2024-A.txt''] =
   \<lparr>results =
      [\<lparr>standards_score = 1, assurance_score = 0, metrics_score = 0, total_score = 1,
        stock_code = Some (ascii ''600000''), company_name = Some (ascii ''A''), year = 2015\<rparr>,
       \<lparr>standards_score = 0, assurance_score = 0, metrics_score = 1, total_score = 1,
        stock_code = Some (ascii ''600000''), company_name = Some (ascii ''A''), year = 2023\<rparr>],
    failed_files =
      [\<lparr>failed_file = ascii ''600000-2014-A.txt'', reason = Literal year_out_of_range\<rparr>,
       \<lparr>failed_file = ascii ''600000-2024-A.txt'', reason = Literal year_out_of_range\<rparr>]\<rparr>"
    by (simp only: main_loop.simps s14 s15 s23 s24) (simp add: record_failure_def)
qed


theorem year_filter_witness:
  "parse_filename basic_latin (ascii ''600000-2015-A.txt'') =
     Inr (Some (ascii ''600000''), Some 2015, Some (ascii ''A'')) \<and>
   (2015 :: int) \<le> 2015 \<and> (2015 :: int) \<le> 2023 \<and>
   process_file basic_latin Map.empty \<lparr>results = [], failed_files = []\<rparr> (ascii ''600000-2015-A.txt'') =
     record_failure \<lparr>results = [], failed_files = []\<rparr> (ascii ''600000-2015-A.txt'')
       (Literal analysis_failed) \<and>
   parse_filename basic_latin (ascii ''600000-2024-A.txt'') =
     Inr (Some (ascii ''600000''), Some 2024, Some (ascii ''A'')) \<and>
   \<not> ((2015 :: int) \<le> 2024 \<and> (2024 :: int) \<le> 2023) \<and>
   process_file basic_latin Map.empty \<lparr>results = [], failed_files = []\<rparr> (ascii ''600000-2024-A.txt'') =
     record_failure \<lparr>results = [], failed_files = []\<rparr> (ascii ''600000-2024-A.txt'')
       (Literal year_out_of_range)"
proof -
  have p15: "parse_filename basic_latin (ascii ''600000-2015-A.txt'') =
      Inr (Some (ascii ''600000''), Some 2015, Some (ascii ''A''))" by code_simp
  have p24: "parse_filename basic_latin (ascii ''600000-2024-A.txt'') =
      Inr (Some (ascii ''600000''), Some 2024, Some (ascii ''A''))" by code_simp
  have n: "analyze_report basic_latin Map.empty (ascii ''600000-2015-A.txt'') = None"
    by (simp add: analyze_report_None)
  have r15: "(2015 :: int) \<le> 2015 \<and> (2015 :: int) \<le> 2023" by simp
  have r24: "\<not> ((2015 :: int) \<le> 2024 \<and> (2024 :: int) \<le> 2023)" by simp
  from year_filter [of basic_latin "ascii ''600000-2015-A.txt''" Map.empty
      "\<lparr>results = [], failed_files = []\<rparr>"] p15 r15
  have "process_file basic_latin Map.empty \<lparr>results = [], failed_files = []\<rparr>
      (ascii ''600000-2015-A.txt'') =
      (case analyze_report basic_latin Map.empty (ascii ''600000-2015-A.txt'') of
         Some sc \<Rightarrow>
           \<lparr>results = [], failed_files = []\<rparr>\<lparr>results := results \<lparr>results = [], failed_files = []\<rparr> @
               [\<lparr>standards_score = standards_score sc, assurance_score = assurance_score sc,
                 metrics_score = metrics_score sc, total_score = total_score sc,
                 stock_code = Some (ascii ''600000''), company_name = Some (ascii ''A''),
                 year = 2015\<rparr>]\<rparr>
       | None \<Rightarrow> record_failure \<lparr>results = [], failed_files = []\<rparr> (ascii ''600000-2015-A.txt'')
           (Literal analysis_failed))"
    by blast
  with n have s15: "process_file basic_latin Map.empty \<lparr>results = [], failed_files = []\<rparr>
      (ascii ''600000-2015-A.txt'') =
      record_failure \<lparr>results = [], failed_files = []\<rparr> (ascii ''600000-2015-A.txt'')
        (Literal analysis_failed)"
    by simp
  from year_filter [of basic_latin "ascii ''600000-2024-A.txt''" Map.empty
      "\<lparr>results = [], failed_files = []\<rparr>"] p24 r24
  have s24: "process_file basic_latin Map.empty \<lparr>results = [], failed_files = []\<rparr>
      (ascii ''600000-2024-A.txt'') =
      record_failure \<lparr>results = [], failed_files = []\<rparr> (ascii ''600000-2024-A.txt'')
        (Literal year_out_of_range)"
    by blast
  from p15 r15 s15 p24 r24 s24 show ?thesis by (intro conjI) simp_all
qed

lemma vocabulary_literal:
  "\<forall>k\<in>set (quantitative_units @ kpi_keywords). \<forall>c\<in>set k. c \<notin> set re_special"
  by (simp add: quantitative_units_def kpi_keywords_def re_special_def ascii_def)

end
